theory Spec2Isabelle
  imports Main "HOL-Library.AList" "HOL-Library.Sublist"
begin

section \<open>The viki jobs library (app/classes/jobs.py)\<close>

text \<open>
  The class \<open>Jobs\<close> keeps one directory per job under \<open>/usr/local/viki/jobs\<close>, each with a
  \<open>config.json\<close>, and runs a job's steps through \<open>/bin/bash\<close>. Everything it does is a
  filesystem access or a child process, so the embedding threads an explicit world
  through every method and makes each Python exception a value.
\<close>

subsection \<open>Python values and exceptions\<close>

text \<open>
  The values that \<open>json.loads\<close> returns and \<open>json.dumps\<close> accepts (floats apart). A
  dictionary keeps its insertion order, as Python's does.
\<close>

datatype pyval =
    PNone
  | PBool bool
  | PInt int
  | PStr string
  | PList "pyval list"
  | PDict "(string \<times> pyval) list"

text \<open>
  The exception classes that the \<open>except\<close> clauses of the source tell apart.
  \<open>OSError\<close> stands for the class and its subclasses (\<open>FileNotFoundError\<close>,
  \<open>FileExistsError\<close>, \<open>IsADirectoryError\<close>, ...), \<open>ValueError\<close> likewise
  (\<open>json.JSONDecodeError\<close>). The text of an error raised by the library is shortened to
  its \<open>strerror\<close>; the texts the source writes itself are exact.
\<close>

datatype exn =
    OSError string
  | ValueError string
  | SystemError string
  | KeyError string
  | TypeError string
  | SyntaxError string
  | StopIteration

fun str_exn :: "exn \<Rightarrow> string" where
  "str_exn (OSError m) = m"
| "str_exn (ValueError m) = m"
| "str_exn (SystemError m) = m"
| "str_exn (KeyError m) = m"
| "str_exn (TypeError m) = m"
| "str_exn (SyntaxError m) = m"
| "str_exn StopIteration = []"

fun truthy :: "pyval \<Rightarrow> bool" where
  "truthy PNone = False"
| "truthy (PBool b) = b"
| "truthy (PInt i) = (i \<noteq> 0)"
| "truthy (PStr s) = (s \<noteq> [])"
| "truthy (PList xs) = (xs \<noteq> [])"
| "truthy (PDict d) = (d \<noteq> [])"

text \<open>\<open>v[k]\<close> for a string key \<open>k\<close>.\<close>

fun getitem :: "pyval \<Rightarrow> string \<Rightarrow> exn + pyval" where
  "getitem (PDict d) k = (case map_of d k of None \<Rightarrow> Inl (KeyError k) | Some v \<Rightarrow> Inr v)"
| "getitem (PList xs) k = Inl (TypeError ''list indices must be integers or slices, not str'')"
| "getitem (PStr s) k = Inl (TypeError ''string indices must be integers'')"
| "getitem v k = Inl (TypeError ''object is not subscriptable'')"

text \<open>\<open>v[k] = x\<close> for a string key \<open>k\<close>: an existing key keeps its place, a new one goes last.\<close>

fun setitem :: "pyval \<Rightarrow> string \<Rightarrow> pyval \<Rightarrow> exn + pyval" where
  "setitem (PDict d) k x = Inr (PDict (AList.update k x d))"
| "setitem (PList xs) k x = Inl (TypeError ''list indices must be integers or slices, not str'')"
| "setitem v k x = Inl (TypeError ''object does not support item assignment'')"

text \<open>The items that \<open>for step in v\<close> visits.\<close>

fun iter_items :: "pyval \<Rightarrow> exn + pyval list" where
  "iter_items (PList xs) = Inr xs"
| "iter_items (PStr s) = Inr (map (\<lambda>c. PStr [c]) s)"
| "iter_items (PDict d) = Inr (map (\<lambda>kv. PStr (fst kv)) d)"
| "iter_items v = Inl (TypeError ''object is not iterable'')"

subsection \<open>\<open>json.dumps\<close>\<close>

definition hex_digit :: "nat \<Rightarrow> char" where
  "hex_digit d = ''0123456789abcdef'' ! (d mod 16)"

text \<open>The \<open>k\<close> low hexadecimal digits of \<open>v\<close>, most significant first.\<close>

fun hex_digits :: "nat \<Rightarrow> nat \<Rightarrow> string" where
  "hex_digits 0 v = []"
| "hex_digits (Suc k) v = hex_digits k (v div 16) @ [hex_digit v]"

fun dec_digits :: "nat \<Rightarrow> string" where
  "dec_digits n = (if n < 10 then [hex_digit n] else dec_digits (n div 10) @ [hex_digit (n mod 10)])"

definition str_int :: "int \<Rightarrow> string" where
  "str_int i = (if i < 0 then CHR ''-'' # dec_digits (nat (- i)) else dec_digits (nat i))"

text \<open>
  The encoder's default is \<open>ensure_ascii\<close>: the quote and the backslash are escaped,
  the five short escapes are used, and every other character outside \<open>' '..'~'\<close> becomes
  \<open>\uXXXX\<close>.
\<close>

definition json_escape :: "char \<Rightarrow> string" where
  "json_escape c =
     (if c = CHR 0x22 then [CHR 0x5C, CHR 0x22]
      else if c = CHR 0x5C then [CHR 0x5C, CHR 0x5C]
      else if c = CHR 0x0A then [CHR 0x5C, CHR ''n'']
      else if c = CHR 0x0D then [CHR 0x5C, CHR ''r'']
      else if c = CHR 0x09 then [CHR 0x5C, CHR ''t'']
      else if c = CHR 0x08 then [CHR 0x5C, CHR ''b'']
      else if c = CHR 0x0C then [CHR 0x5C, CHR ''f'']
      else if of_char c < (32::nat) \<or> (126::nat) < of_char c
        then [CHR 0x5C, CHR ''u''] @ hex_digits 4 (of_char c)
      else [c])"

definition json_string :: "string \<Rightarrow> string" where
  "json_string s = [CHR 0x22] @ concat (map json_escape s) @ [CHR 0x22]"

fun join_with :: "string \<Rightarrow> string list \<Rightarrow> string" where
  "join_with sep [] = []"
| "join_with sep [x] = x"
| "join_with sep (x # y # ys) = x @ sep @ join_with sep (y # ys)"

fun json_dumps :: "pyval \<Rightarrow> string" where
  "json_dumps PNone = ''null''"
| "json_dumps (PBool b) = (if b then ''true'' else ''false'')"
| "json_dumps (PInt i) = str_int i"
| "json_dumps (PStr s) = json_string s"
| "json_dumps (PList xs) = ''['' @ join_with '', '' (map json_dumps xs) @ '']''"
| "json_dumps (PDict d) =
     ''{'' @ join_with '', '' (map (\<lambda>kv. json_string (fst kv) @ '': '' @ json_dumps (snd kv)) d) @ ''}''"

subsection \<open>The filesystem\<close>

text \<open>
  A filesystem is a table from absolute paths (lists of components, the root being \<open>[]\<close>)
  to nodes. Its order is the order in which a directory is listed. Permissions and
  symbolic links are not modelled.
\<close>

datatype node = Dir | File string

type_synonym path = "string list"
type_synonym fsys = "(path \<times> node) list"

definition is_dir :: "fsys \<Rightarrow> path \<Rightarrow> bool" where
  "is_dir fs p = (p = [] \<or> map_of fs p = Some Dir)"

definition node_of :: "fsys \<Rightarrow> path \<Rightarrow> node option" where
  "node_of fs p = (if p = [] then Some Dir else map_of fs p)"

text \<open>\<open>s.split(c)\<close>: the pieces of \<open>s\<close> between occurrences of \<open>c\<close>.\<close>

fun split_on :: "char \<Rightarrow> string \<Rightarrow> string list" where
  "split_on c [] = [[]]"
| "split_on c (x # xs) =
     (if x = c then [] # split_on c xs
      else (case split_on c xs of [] \<Rightarrow> [[x]] | w # ws \<Rightarrow> (x # w) # ws))"

text \<open>
  The limits of Linux on a file name and on a path, in bytes. A name reaches the kernel
  in UTF-8, where a character from 128 on (the characters here are the code points
  below 256) takes two bytes.
\<close>

definition name_max :: nat where
  "name_max = 255"

definition path_max :: nat where
  "path_max = 4096"

definition fs_len :: "string \<Rightarrow> nat" where
  "fs_len s = length s + length (filter (\<lambda>c. (127::nat) < of_char c) s)"

text \<open>
  Path resolution as the kernel does it: every component is looked up in a directory
  that must exist; an empty component and \<open>.\<close> stay, \<open>..\<close> goes up, and a name longer
  than \<open>name_max\<close> is refused. The result is the absolute path named, whether or not
  anything is there.
\<close>

fun walk :: "fsys \<Rightarrow> path \<Rightarrow> string list \<Rightarrow> path option" where
  "walk fs cur [] = Some cur"
| "walk fs cur (c # cs) =
     (if \<not> is_dir fs cur then None
      else if c = [] \<or> c = ''.'' then walk fs cur cs
      else if c = ''..'' then walk fs (butlast cur) cs
      else if name_max < fs_len c then None
      else walk fs (cur @ [c]) cs)"

text \<open>The \<open>strerror\<close> of a resolution that fails, or that finds nothing.\<close>

fun walk_strerror :: "fsys \<Rightarrow> path \<Rightarrow> string list \<Rightarrow> string" where
  "walk_strerror fs cur [] = ''No such file or directory''"
| "walk_strerror fs cur (c # cs) =
     (if \<not> is_dir fs cur
        then (if map_of fs cur = None then ''No such file or directory'' else ''Not a directory'')
      else if c = [] \<or> c = ''.'' then walk_strerror fs cur cs
      else if c = ''..'' then walk_strerror fs (butlast cur) cs
      else if name_max < fs_len c then ''File name too long''
      else walk_strerror fs (cur @ [c]) cs)"

definition has_nul :: "string \<Rightarrow> bool" where
  "has_nul s = (CHR 0x00 \<in> set s)"

text \<open>Trailing slashes do not change which directory a path names.\<close>

definition strip_slashes :: "string list \<Rightarrow> string list" where
  "strip_slashes cs = rev (dropWhile (\<lambda>c. c = []) (rev cs))"

subsection \<open>The world and what the code cannot see into\<close>

text \<open>
  The world holds the filesystem, the number of UUIDs drawn so far, and, as a log for
  the claims about execution, the steps whose process has been started and has exited,
  each with its exit code.
\<close>

record world =
  files :: fsys
  drawn :: nat
  steps_run :: "(string \<times> int) list"

text \<open>
  A child process is what \<open>poll()\<close> answers at each call: \<open>None\<close> while it runs, then the
  exit code (negative for a signal) together with the filesystem it leaves.
\<close>

type_synonym proc = "nat \<Rightarrow> (int \<times> fsys) option"

text \<open>
  The collaborators of the class are parameters: the working directory of the Python
  process, the random source behind \<open>uuid.uuid4\<close>, whether starting a child fails
  (\<open>subprocess\<close> then raises), what a started child does, and the two parsers of the
  standard library.
\<close>

record env =
  cwd :: path
  uuid4 :: "nat \<Rightarrow> nat"
  spawn_error :: "string list \<Rightarrow> fsys \<Rightarrow> exn option"
  child :: "string list \<Rightarrow> fsys \<Rightarrow> proc"
  json_loads :: "string \<Rightarrow> exn + pyval"
  literal_eval :: "string \<Rightarrow> exn + pyval"

text \<open>A call returns, raises, or never comes back.\<close>

datatype 'a outcome = Diverges | Raises exn world | Returns 'a world

fun then_do :: "'a outcome \<Rightarrow> ('a \<Rightarrow> world \<Rightarrow> 'b outcome) \<Rightarrow> 'b outcome" where
  "then_do Diverges f = Diverges"
| "then_do (Raises e w) f = Raises e w"
| "then_do (Returns x w) f = f x w"

fun lift :: "exn + 'a \<Rightarrow> world \<Rightarrow> 'a outcome" where
  "lift (Inl e) w = Raises e w"
| "lift (Inr x) w = Returns x w"

text \<open>\<open>while process.poll() is None: pass\<close>, from the \<open>n\<close>-th poll on.\<close>

partial_function (option) poll_until_exit :: "proc \<Rightarrow> nat \<Rightarrow> (int \<times> fsys) option" where
  "poll_until_exit p n = (case p n of None \<Rightarrow> poll_until_exit p (Suc n) | Some r \<Rightarrow> Some r)"

declare poll_until_exit.simps [code]

subsection \<open>\<open>os\<close>, \<open>os.path\<close>, \<open>open\<close> and \<open>uuid\<close>\<close>

definition resolve :: "env \<Rightarrow> fsys \<Rightarrow> string \<Rightarrow> path option" where
  "resolve E t s =
     (if s = [] \<or> has_nul s \<or> path_max \<le> fs_len s then None
      else walk t (if hd s = CHR ''/'' then [] else cwd E) (split_on CHR ''/'' s))"

definition resolve_strerror :: "env \<Rightarrow> fsys \<Rightarrow> string \<Rightarrow> string" where
  "resolve_strerror E t s =
     (if s = [] then ''No such file or directory''
      else if path_max \<le> fs_len s then ''File name too long''
      else walk_strerror t (if hd s = CHR ''/'' then [] else cwd E) (split_on CHR ''/'' s))"

definition path_node :: "env \<Rightarrow> fsys \<Rightarrow> string \<Rightarrow> node option" where
  "path_node E t s = (case resolve E t s of None \<Rightarrow> None | Some p \<Rightarrow> node_of t p)"

text \<open>The three tests of \<open>os.path\<close> never raise: any failure is \<open>False\<close>.\<close>

definition os_path_exists :: "env \<Rightarrow> fsys \<Rightarrow> string \<Rightarrow> bool" where
  "os_path_exists E t s = (path_node E t s \<noteq> None)"

definition os_path_isdir :: "env \<Rightarrow> fsys \<Rightarrow> string \<Rightarrow> bool" where
  "os_path_isdir E t s = (path_node E t s = Some Dir)"

definition os_path_isfile :: "env \<Rightarrow> fsys \<Rightarrow> string \<Rightarrow> bool" where
  "os_path_isfile E t s = (case path_node E t s of Some (File c) \<Rightarrow> True | _ \<Rightarrow> False)"

definition os_mkdir :: "env \<Rightarrow> string \<Rightarrow> world \<Rightarrow> unit outcome" where
  "os_mkdir E s w =
     (if has_nul s then Raises (ValueError ''embedded null byte'') w
      else if s = [] then Raises (OSError ''No such file or directory'') w
      else if path_max \<le> fs_len s then Raises (OSError ''File name too long'') w
      else (case walk (files w) (if hd s = CHR ''/'' then [] else cwd E)
                   (strip_slashes (split_on CHR ''/'' s)) of
              None \<Rightarrow>
                Raises (OSError (walk_strerror (files w) (if hd s = CHR ''/'' then [] else cwd E)
                                   (strip_slashes (split_on CHR ''/'' s)))) w
            | Some p \<Rightarrow>
                if node_of (files w) p \<noteq> None then Raises (OSError ''File exists'') w
                else Returns () (w\<lparr>files := AList.update p Dir (files w)\<rparr>)))"

text \<open>\<open>open(s, 'w')\<close>, one \<open>write(text)\<close>, \<open>close()\<close>.\<close>

definition write_file :: "env \<Rightarrow> string \<Rightarrow> string \<Rightarrow> world \<Rightarrow> unit outcome" where
  "write_file E s text w =
     (if has_nul s then Raises (ValueError ''embedded null byte'') w
      else (case resolve E (files w) s of
              None \<Rightarrow> Raises (OSError (resolve_strerror E (files w) s)) w
            | Some p \<Rightarrow>
                if is_dir (files w) p then Raises (OSError ''Is a directory'') w
                else Returns () (w\<lparr>files := AList.update p (File text) (files w)\<rparr>)))"

text \<open>\<open>open(s, 'a')\<close>: the file is created empty when it is not there.\<close>

definition open_append :: "env \<Rightarrow> string \<Rightarrow> world \<Rightarrow> unit outcome" where
  "open_append E s w =
     (if has_nul s then Raises (ValueError ''embedded null byte'') w
      else (case resolve E (files w) s of
              None \<Rightarrow> Raises (OSError (resolve_strerror E (files w) s)) w
            | Some p \<Rightarrow>
                if is_dir (files w) p then Raises (OSError ''Is a directory'') w
                else (case map_of (files w) p of
                        None \<Rightarrow> Returns () (w\<lparr>files := AList.update p (File []) (files w)\<rparr>)
                      | Some n \<Rightarrow> Returns () w)))"

text \<open>\<open>open(s, 'r')\<close>, \<open>read()\<close>, \<open>close()\<close>.\<close>

definition read_file :: "env \<Rightarrow> string \<Rightarrow> world \<Rightarrow> string outcome" where
  "read_file E s w =
     (if has_nul s then Raises (ValueError ''embedded null byte'') w
      else (case path_node E (files w) s of
              None \<Rightarrow> Raises (OSError (resolve_strerror E (files w) s)) w
            | Some Dir \<Rightarrow> Raises (OSError ''Is a directory'') w
            | Some (File c) \<Rightarrow> Returns c w))"

text \<open>The directories directly under \<open>p\<close>, in listing order.\<close>

definition subdirs :: "fsys \<Rightarrow> path \<Rightarrow> string list" where
  "subdirs t p =
     map (\<lambda>e. last (fst e)) (filter (\<lambda>e. fst e \<noteq> [] \<and> butlast (fst e) = p \<and> snd e = Dir) t)"

text \<open>
  \<open>next(os.walk(top))[1]\<close>. \<open>os.walk\<close> swallows the error of listing its argument (its
  \<open>onerror\<close> is \<open>None\<close>) and yields nothing, so \<open>next\<close> raises \<open>StopIteration\<close>.
\<close>

definition next_os_walk :: "env \<Rightarrow> string \<Rightarrow> world \<Rightarrow> string list outcome" where
  "next_os_walk E topdir w =
     (case resolve E (files w) topdir of
        None \<Rightarrow> Raises StopIteration w
      | Some p \<Rightarrow> if is_dir (files w) p then Returns (subdirs (files w) p) w
                 else Raises StopIteration w)"

text \<open>\<open>str(uuid)\<close>: 32 hexadecimal digits of a 128-bit number, grouped 8-4-4-4-12.\<close>

definition uuid_str :: "nat \<Rightarrow> string" where
  "uuid_str u =
     (let h = hex_digits 32 u
      in take 8 h @ ''-'' @ take 4 (drop 8 h) @ ''-'' @ take 4 (drop 12 h) @ ''-''
         @ take 4 (drop 16 h) @ ''-'' @ drop 20 h)"

definition new_uuid :: "env \<Rightarrow> world \<Rightarrow> string \<times> world" where
  "new_uuid E w = (uuid_str (uuid4 E (drawn w)), w\<lparr>drawn := Suc (drawn w)\<rparr>)"

subsection \<open>\<open>/bin/bash -c 'rm -rf ...'\<close>\<close>

text \<open>
  Characters that the shell passes on as they are. A word of them that does not start
  with a dash is one operand of \<open>rm\<close>.
\<close>

definition plain_char :: "char \<Rightarrow> bool" where
  "plain_char c =
     (c \<in> set ''abcdefghijklmnopqrstuvwxyzABCDEFGHIJKLMNOPQRSTUVWXYZ0123456789/._-'')"

definition plain_word :: "string \<Rightarrow> bool" where
  "plain_word d = (d \<noteq> [] \<and> hd d \<noteq> CHR ''-'' \<and> list_all plain_char d)"

text \<open>
  \<open>rm -rf d\<close> for one operand: it refuses the root, \<open>.\<close> and \<open>..\<close>, ignores what it cannot
  reach, and removes the whole tree otherwise.
\<close>

definition rm_rf :: "env \<Rightarrow> string \<Rightarrow> fsys \<Rightarrow> fsys" where
  "rm_rf E d t =
     (let cs = strip_slashes (split_on CHR ''/'' d)
      in if cs = [] \<or> last cs = ''.'' \<or> last cs = ''..'' then t
         else (case resolve E t d of
                 None \<Rightarrow> t
               | Some p \<Rightarrow> if p = [] then t else filter (\<lambda>e. \<not> prefix p (fst e)) t))"

subsection \<open>Jobs internals\<close>

definition home :: string where
  "home = ''/usr/local/viki''"

definition jobs_path :: string where
  "jobs_path = home @ ''/'' @ ''jobs''"

definition job_config_filename :: string where
  "job_config_filename = ''config.json''"

text \<open>The dictionaries that the public methods return.\<close>

record result =
  success :: nat
  message :: string

record jobs_result = result +
  jobs :: "string list"


record run_result = result +
  return_code :: int

text \<open>\<open>self.jobs_path + "/" + name\<close> with \<open>name\<close> being \<open>None\<close>.\<close>

definition concat_none :: exn where
  "concat_none = TypeError ''can only concatenate str (not NoneType) to str''"

definition write_job_file :: "env \<Rightarrow> string \<Rightarrow> pyval \<Rightarrow> world \<Rightarrow> bool outcome" where
  "write_job_file E file txt w =
     (if file = [] \<or> \<not> truthy txt then Returns False w
      else then_do (write_file E file (json_dumps txt) w) (\<lambda>u w'. Returns True w'))"

definition read_job_file :: "env \<Rightarrow> string \<Rightarrow> world \<Rightarrow> pyval outcome" where
  "read_job_file E file w =
     (if file = [] then Returns (PBool False) w
      else then_do (read_file E file w) (\<lambda>ret w'. Returns (PStr ret) w'))"

text \<open>
  \<open>subprocess.call(['/bin/bash', '-c', 'rm -rf ' + dir])\<close>; the exit code is dropped. The
  shell's reading of a \<open>dir\<close> that is not a plain word is left to the environment.
\<close>

definition dirty_rm_rf :: "env \<Rightarrow> string \<Rightarrow> world \<Rightarrow> bool outcome" where
  "dirty_rm_rf E d w =
     (let argv = [''/bin/bash'', ''-c'', ''rm -rf '' @ d]
      in case spawn_error E argv (files w) of
           Some e \<Rightarrow> Raises e w
         | None \<Rightarrow>
             if plain_word d then Returns True (w\<lparr>files := rm_rf E d (files w)\<rparr>)
             else (case poll_until_exit (child E argv (files w)) 0 of
                     None \<Rightarrow> Diverges
                   | Some r \<Rightarrow> Returns True (w\<lparr>files := snd r\<rparr>)))"

text \<open>
  The part of \<open>_run_shell_command\<close> from \<open>subprocess.Popen\<close> on, for a command that is
  a string and a script already written.
\<close>

definition spawn_and_wait :: "env \<Rightarrow> string \<Rightarrow> string \<Rightarrow> world \<Rightarrow> (bool \<times> int) outcome" where
  "spawn_and_wait E command sh_script_name w =
     (let argv = [''/bin/bash'', ''-xc'', command]
      in case spawn_error E argv (files w) of
           Some e \<Rightarrow> Raises e w
         | None \<Rightarrow>
             (case poll_until_exit (child E argv (files w)) 0 of
                None \<Rightarrow> Diverges
              | Some r \<Rightarrow>
                  then_do (dirty_rm_rf E sh_script_name
                             (w\<lparr>files := snd r, steps_run := steps_run w @ [(command, fst r)]\<rparr>))
                    (\<lambda>u w'. Returns (fst r = 0, fst r) w')))"

definition run_shell_command :: "env \<Rightarrow> pyval \<Rightarrow> string \<Rightarrow> world \<Rightarrow> (bool \<times> int) outcome" where
  "run_shell_command E command output_filename w =
     (case open_append E output_filename w of
        Diverges \<Rightarrow> Diverges
      | Raises e w1 \<Rightarrow> Raises e w1
      | Returns u w1 \<Rightarrow>
          (let sh_script_name = ''viki-'' @ fst (new_uuid E w1); w2 = snd (new_uuid E w1)
           in case command of
                PStr c \<Rightarrow>
                  (case write_file E sh_script_name c w2 of
                     Diverges \<Rightarrow> Diverges
                   | Raises e w3 \<Rightarrow> Raises e w3
                   | Returns u w3 \<Rightarrow> spawn_and_wait E c sh_script_name w3)
              | v \<Rightarrow>
                  (case write_file E sh_script_name [] w2 of
                     Diverges \<Rightarrow> Diverges
                   | Raises e w3 \<Rightarrow> Raises e w3
                   | Returns u w3 \<Rightarrow> Raises (TypeError ''write() argument must be str'') w3)))"

subsection \<open>Job functions\<close>

definition get_jobs :: "env \<Rightarrow> world \<Rightarrow> jobs_result outcome" where
  "get_jobs E w =
     (case next_os_walk E jobs_path w of
        Diverges \<Rightarrow> Diverges
      | Returns jobs_list w' \<Rightarrow>
          Returns \<lparr>success = 1, message = ''Ok'', jobs = jobs_list\<rparr> w'
      | Raises (OSError m) w' \<Rightarrow> Returns \<lparr>success = 0, message = m, jobs = []\<rparr> w'
      | Raises e w' \<Rightarrow> Raises e w')"



text \<open>The counters and the name that \<open>create_job\<close> stores in the dictionary.\<close>

definition init_record :: "string \<Rightarrow> pyval \<Rightarrow> world \<Rightarrow> pyval outcome" where
  "init_record new_name j w =
     then_do (lift (setitem j ''runNumber'' (PInt 0)) w) (\<lambda>j1 w.
     then_do (lift (setitem j1 ''lastSuccessfulRun'' (PInt 0)) w) (\<lambda>j2 w.
     then_do (lift (setitem j2 ''lastFailedRun'' (PInt 0)) w) (\<lambda>j3 w.
     lift (setitem j3 ''name'' (PStr new_name)) w)))"

definition create_job_try :: "env \<Rightarrow> string option \<Rightarrow> pyval \<Rightarrow> world \<Rightarrow> bool outcome" where
  "create_job_try E new_name json_text w =
     (case new_name of
        None \<Rightarrow> Raises concat_none w
      | Some n \<Rightarrow>
       let job_dir = jobs_path @ ''/'' @ n;
           job_filename = job_dir @ ''/'' @ job_config_filename
       in if os_path_exists E (files w) job_dir
          then Raises (SystemError ''Job directory already exists'') w
          else
            then_do (os_mkdir E job_dir w) (\<lambda>u w.
            then_do (lift (case json_text of PStr s \<Rightarrow> literal_eval E s | v \<Rightarrow> Inr v) w) (\<lambda>j w.
            then_do (lift (getitem j ''description'') w) (\<lambda>d w.
              if \<not> truthy d then Raises (ValueError ''Missing description'') w
              else
                then_do (lift (getitem j ''steps'') w) (\<lambda>s w.
                  if \<not> truthy s then Raises (ValueError ''Missing steps'') w
                  else
                    then_do (init_record n j w) (\<lambda>j4 w.
                      write_job_file E job_filename j4 w))))))"

definition create_job :: "env \<Rightarrow> string option \<Rightarrow> pyval \<Rightarrow> world \<Rightarrow> result outcome" where
  "create_job E new_name json_text w =
     (case create_job_try E new_name json_text w of
        Diverges \<Rightarrow> Diverges
      | Returns u w' \<Rightarrow> Returns \<lparr>success = 1, message = ''Job created successfully''\<rparr> w'
      | Raises (ValueError m) w' \<Rightarrow> Returns \<lparr>success = 0, message = m\<rparr> w'
      | Raises (SystemError m) w' \<Rightarrow> Returns \<lparr>success = 0, message = m\<rparr> w'
      | Raises e w' \<Rightarrow> Raises e w')"

definition update_job :: "env \<Rightarrow> string option \<Rightarrow> world \<Rightarrow> result outcome" where
  "update_job E nm w =
     (let job_filename = ''Placeholder''
      in then_do (if os_path_exists E (files w) job_filename
                  then dirty_rm_rf E job_filename w else Returns True w)
           (\<lambda>u w'. Returns \<lparr>success = 1, message = ''-- Under Construction --''\<rparr> w'))"

text \<open>
  The \<open>for\<close> loop of \<open>run_job\<close>. The loop and the \<open>try\<close> block around it hand back the
  exception that left them, if any, next to the value \<open>return_code\<close> has at that moment:
  the handlers of \<open>run_job\<close> need both.
\<close>

fun run_steps :: "env \<Rightarrow> string \<Rightarrow> pyval list \<Rightarrow> int \<Rightarrow> world \<Rightarrow> (exn option \<times> int) outcome" where
  "run_steps E filename [] rc w = Returns (None, rc) w"
| "run_steps E filename (step # rest) rc w =
     (case run_shell_command E step filename w of
        Diverges \<Rightarrow> Diverges
      | Raises e w' \<Rightarrow> Returns (Some e, rc) w'
      | Returns r w' \<Rightarrow>
          if \<not> fst r then Returns (Some (SystemError ''Build step failed''), snd r) w'
          else run_steps E filename rest (snd r) w')"

definition py_json_loads :: "env \<Rightarrow> pyval \<Rightarrow> exn + pyval" where
  "py_json_loads E v =
     (case v of
        PStr s \<Rightarrow> json_loads E s
      | u \<Rightarrow> Inl (TypeError ''the JSON object must be str, bytes or bytearray''))"

definition run_job_try :: "env \<Rightarrow> string \<Rightarrow> world \<Rightarrow> (exn option \<times> int) outcome" where
  "run_job_try E job_dir w =
     (let job_config_json_file = job_dir @ ''/'' @ ''config.json''
      in if \<not> os_path_isdir E (files w) job_dir then Returns (Some (OSError ''Job not found''), 0) w
         else if \<not> os_path_isfile E (files w) job_config_json_file
           then Returns (Some (OSError ''Job file not found''), 0) w
         else
           (case read_job_file E job_config_json_file w of
              Diverges \<Rightarrow> Diverges
            | Raises e w' \<Rightarrow> Returns (Some e, 0) w'
            | Returns txt w' \<Rightarrow>
                (case py_json_loads E txt of
                   Inl e \<Rightarrow> Returns (Some e, 0) w'
                 | Inr job_json \<Rightarrow>
                     if job_json = PBool False \<or> job_json = PNone
                     then Returns (Some (OSError ''Job file could not be read''), 0) w'
                     else
                       (let filename = job_dir @ ''/'' @ ''output.txt''
                        in case getitem job_json ''steps'' of
                             Inl e \<Rightarrow> Returns (Some e, 0) w'
                           | Inr jobSteps \<Rightarrow>
                               (case iter_items jobSteps of
                                  Inl e \<Rightarrow> Returns (Some e, 0) w'
                                | Inr items \<Rightarrow> run_steps E filename items 0 w')))))"

text \<open>The end of \<open>run_job\<close>: the working directory is removed and the dictionary returned.\<close>

definition run_job_finish ::
    "env \<Rightarrow> string \<Rightarrow> nat \<Rightarrow> string \<Rightarrow> int \<Rightarrow> world \<Rightarrow> run_result outcome" where
  "run_job_finish E tmp_cwd s m rc w =
     then_do (dirty_rm_rf E tmp_cwd w) (\<lambda>u w'.
       Returns \<lparr>success = s, message = m, return_code = rc\<rparr> w')"

definition run_job :: "env \<Rightarrow> string option \<Rightarrow> world \<Rightarrow> run_result outcome" where
  "run_job E nm w =
     (case nm of
        None \<Rightarrow> Raises concat_none w
      | Some n \<Rightarrow>
       let job_dir = jobs_path @ ''/'' @ n;
           tmp_cwd = ''/tmp/viki-'' @ fst (new_uuid E w); w1 = snd (new_uuid E w)
       in then_do (os_mkdir E tmp_cwd w1) (\<lambda>u w2.
          then_do (run_job_try E job_dir w2) (\<lambda>r w3.
            case fst r of
              None \<Rightarrow> run_job_finish E tmp_cwd 1 ''Run successful'' (snd r) w3
            | Some (OSError m) \<Rightarrow> run_job_finish E tmp_cwd 0 m (snd r) w3
            | Some (SystemError m) \<Rightarrow> run_job_finish E tmp_cwd 0 m (snd r) w3
            | Some (KeyError k) \<Rightarrow> run_job_finish E tmp_cwd 0 ''Job has no steps'' (snd r) w3
            | Some e \<Rightarrow> Raises e w3)))"

definition delete_job_try :: "env \<Rightarrow> string option \<Rightarrow> world \<Rightarrow> bool outcome" where
  "delete_job_try E nm w =
     (case nm of
        None \<Rightarrow> Raises (ValueError ''Missing job name'') w
      | Some n \<Rightarrow>
          (let job_dir = jobs_path @ ''/'' @ n
           in if \<not> os_path_isdir E (files w) job_dir then Raises (OSError ''Job not found'') w
              else dirty_rm_rf E job_dir w))"

definition delete_job :: "env \<Rightarrow> string option \<Rightarrow> world \<Rightarrow> result outcome" where
  "delete_job E nm w =
     (case delete_job_try E nm w of
        Diverges \<Rightarrow> Diverges
      | Returns u w' \<Rightarrow> Returns \<lparr>success = 1, message = ''Job deleted''\<rparr> w'
      | Raises (OSError m) w' \<Rightarrow> Returns \<lparr>success = 0, message = m\<rparr> w'
      | Raises (ValueError m) w' \<Rightarrow> Returns \<lparr>success = 0, message = m\<rparr> w'
      | Raises e w' \<Rightarrow> Raises e w')"

subsection \<open>Conditions on the environment\<close>

text \<open>Every child process can be started.\<close>

definition spawns_ok :: "env \<Rightarrow> bool" where
  "spawns_ok E = (\<forall>argv t. spawn_error E argv t = None)"

text \<open>The registry directory as an absolute path.\<close>

definition jobs_root :: path where
  "jobs_root = [''usr'', ''local'', ''viki'', ''jobs'']"

text \<open>A job name that is one component of a path.\<close>

definition valid_name :: "string \<Rightarrow> bool" where
  "valid_name n = (n \<noteq> [] \<and> n \<noteq> ''.'' \<and> n \<noteq> ''..'' \<and> CHR ''/'' \<notin> set n \<and> CHR 0x00 \<notin> set n)"


text \<open>No child process changes the entry of the table at \<open>p\<close>.\<close>

definition children_keep :: "env \<Rightarrow> path \<Rightarrow> bool" where
  "children_keep E p =
     (\<forall>argv t k r. child E argv t k = Some r \<longrightarrow> map_of (snd r) p = map_of t p)"

text \<open>An outcome that comes back leaves the entry at \<open>q\<close> as it was in \<open>w\<close>.\<close>

definition keeps :: "path \<Rightarrow> world \<Rightarrow> 'a outcome \<Rightarrow> bool" where
  "keeps q w m =
     (case m of
        Diverges \<Rightarrow> True
      | Raises e w' \<Rightarrow> map_of (files w') q = map_of (files w) q
      | Returns x w' \<Rightarrow> map_of (files w') q = map_of (files w) q)"

text \<open>
  What a step of the job \<open>n\<close> needs of the filesystem to be run: the job directory is
  there, \<open>output.txt\<close> in it can be opened for appending, the directory the service runs
  in is there, and no directory in it has the name of a script.
\<close>

definition run_ready :: "env \<Rightarrow> string \<Rightarrow> fsys \<Rightarrow> bool" where
  "run_ready E n t =
     (os_path_isdir E t (jobs_path @ ''/'' @ n)
      \<and> \<not> os_path_isdir E t (jobs_path @ ''/'' @ n @ ''/'' @ ''output.txt'')
      \<and> is_dir t (cwd E)
      \<and> (\<forall>k. \<not> is_dir t (cwd E @ [''viki-'' @ uuid_str (uuid4 E k)])))"

text \<open>
  Every child process started in such a filesystem exits, and leaves it such a filesystem.
\<close>

definition children_behave :: "env \<Rightarrow> string \<Rightarrow> bool" where
  "children_behave E n =
     (\<forall>argv t. run_ready E n t \<longrightarrow>
        (\<exists>k r. child E argv t k = Some r)
        \<and> (\<forall>k r. child E argv t k = Some r \<longrightarrow> run_ready E n (snd r)))"

subsection \<open>Concrete worlds\<close>

text \<open>
  An installation to evaluate the methods on: the registry directory, \<open>/tmp\<close>, and the
  working directory \<open>/srv\<close>. UUIDs are drawn in sequence, every child starts, \<open>false\<close>
  exits with 1 and every other command with 0 (each at the third poll, touching
  nothing), and \<open>json.loads\<close> knows the texts used below.
\<close>

definition registry :: fsys where
  "registry =
     [([''usr''], Dir), ([''usr'', ''local''], Dir), ([''usr'', ''local'', ''viki''], Dir),
      ([''usr'', ''local'', ''viki'', ''jobs''], Dir), ([''tmp''], Dir), ([''srv''], Dir)]"

definition job_a :: "string \<Rightarrow> fsys" where
  "job_a c =
     [([''usr'', ''local'', ''viki'', ''jobs'', ''a''], Dir),
      ([''usr'', ''local'', ''viki'', ''jobs'', ''a'', ''config.json''], File c)]"

definition world_of :: "fsys \<Rightarrow> world" where
  "world_of t = \<lparr>files = t, drawn = 0, steps_run = []\<rparr>"

definition no_steps_json :: string where
  \<open>no_steps_json = ''{"description": "d", "steps": []}''\<close>

definition three_steps_json :: string where
  \<open>three_steps_json = ''{"description": "d", "steps": ["true", "false", "true"]}''\<close>

definition env_ok :: env where
  "env_ok =
     \<lparr>cwd = [''srv''],
      uuid4 = (\<lambda>n. n),
      spawn_error = (\<lambda>argv t. None),
      child = (\<lambda>argv t n.
        if n < 2 then None
        else Some (if argv = [''/bin/bash'', ''-xc'', ''false''] then 1 else 0, t)),
      json_loads = (\<lambda>s.
        if s = no_steps_json
          then Inr (PDict [(''description'', PStr ''d''), (''steps'', PList [])])
        else if s = three_steps_json
          then Inr (PDict [(''description'', PStr ''d''),
                 (''steps'', PList [PStr ''true'', PStr ''false'', PStr ''true''])])
        else Inl (ValueError ''Expecting value'')),
      literal_eval = (\<lambda>s. Inl (SyntaxError ''invalid syntax''))\<rparr>"

text \<open>The same installation when no process can be started.\<close>

definition env_nofork :: env where
  "env_nofork = env_ok\<lparr>spawn_error := (\<lambda>argv t. Some (OSError ''Cannot allocate memory''))\<rparr>"

text \<open>A job to create, and the record that \<open>create_job\<close> stores for it under the name \<open>b\<close>.\<close>

definition build_job :: "(string \<times> pyval) list" where
  "build_job = [(''description'', PStr ''build''), (''steps'', PList [PStr ''make''])]"

definition build_json :: string where
  \<open>build_json = ''{"description": "build", "steps": ["make"], "runNumber": 0, "lastSuccessfulRun": 0, "lastFailedRun": 0, "name": "b"}''\<close>

definition job_b :: fsys where
  "job_b = [([''usr'', ''local'', ''viki'', ''jobs'', ''b''], Dir),
      ([''usr'', ''local'', ''viki'', ''jobs'', ''b'', ''config.json''], File build_json)]"

text \<open>The run of the job with the steps \<open>true\<close>, \<open>false\<close>, \<open>true\<close>: its result and the world it leaves.\<close>

definition ran_three :: world where
  "ran_three =
     \<lparr>files = registry @ job_a three_steps_json
               @ [([''usr'', ''local'', ''viki'', ''jobs'', ''a'', ''output.txt''], File [])],
      drawn = 3, steps_run = [(''true'', 0), (''false'', 1)]\<rparr>"

definition step_failed :: run_result where
  "step_failed = \<lparr>success = 0, message = ''Build step failed'', return_code = 1\<rparr>"

text \<open>
  A job whose stored steps hold a number, an installation whose \<open>json.loads\<close> knows that
  text, and the worlds that \<open>run_job\<close> leaves when the configuration cannot be parsed and
  when a step is not a string.
\<close>

definition number_step_json :: string where
  \<open>number_step_json = ''{"description": "d", "steps": [1]}''\<close>

definition env_numbers :: env where
  "env_numbers =
     env_ok\<lparr>json_loads := (\<lambda>s.
       if s = number_step_json
         then Inr (PDict [(''description'', PStr ''d''), (''steps'', PList [PInt 1])])
       else json_loads env_ok s)\<rparr>"

definition left_unparsed :: world where
  "left_unparsed =
     \<lparr>files = registry @ job_a ''not json''
               @ [([''tmp'', ''viki-00000000-0000-0000-0000-000000000000''], Dir)],
      drawn = 1, steps_run = []\<rparr>"

definition left_number_step :: world where
  "left_number_step =
     \<lparr>files = registry @ job_a number_step_json
               @ [([''tmp'', ''viki-00000000-0000-0000-0000-000000000000''], Dir),
                  ([''usr'', ''local'', ''viki'', ''jobs'', ''a'', ''output.txt''], File []),
                  ([''srv'', ''viki-00000000-0000-0000-0000-000000000001''], File [])],
      drawn = 2, steps_run = []\<rparr>"

section \<open>Properties\<close>

subsection \<open>Deleting with an empty name\<close>

text \<open>
  C1. An empty job name must make \<open>delete_job\<close> fail and remove nothing. The code only
  rejects \<open>None\<close>: for the empty string the job directory is the registry root itself,
  which is a directory, so \<open>rm -rf\<close> removes the registry with every job in it and the
  call reports success.
\<close>

theorem delete_job_empty_name_removes_registry:
  "delete_job env_ok (Some []) (world_of (registry @ job_a no_steps_json)) =
     Returns \<lparr>success = 1, message = ''Job deleted''\<rparr>
       (world_of [([''usr''], Dir), ([''usr'', ''local''], Dir),
                  ([''usr'', ''local'', ''viki''], Dir), ([''tmp''], Dir), ([''srv''], Dir)])"
  by code_simp

subsection \<open>Exceptions that leave the public methods\<close>

text \<open>
  C2. Every public method is to return its result dictionary and never raise. Each
  method catches a few exception classes only: \<open>create_job\<close> lets the \<open>KeyError\<close> of a
  dictionary without a description through (after it has made the job directory),
  \<open>get_jobs\<close> lets the \<open>StopIteration\<close> of a missing registry through, and \<open>run_job\<close> lets
  the \<open>ValueError\<close> of an unparsable configuration through, leaving its working directory
  behind.
\<close>

theorem public_methods_raise:
  "create_job env_ok (Some ''b'') (PDict [(''steps'', PList [PStr ''make''])]) (world_of registry) =
     Raises (KeyError ''description'')
       (world_of (registry @ [([''usr'', ''local'', ''viki'', ''jobs'', ''b''], Dir)]))
   \<and> get_jobs env_ok (world_of [([''tmp''], Dir), ([''srv''], Dir)]) =
     Raises StopIteration (world_of [([''tmp''], Dir), ([''srv''], Dir)])
   \<and> run_job env_ok (Some ''a'') (world_of (registry @ job_a ''not json'')) =
     Raises (ValueError ''Expecting value'')
       \<lparr>files = registry @ job_a ''not json''
                 @ [([''tmp'', ''viki-00000000-0000-0000-0000-000000000000''], Dir)],
        drawn = 1, steps_run = []\<rparr>"
  by code_simp

subsection \<open>Running a job without steps\<close>

text \<open>
  C3. A job whose stored steps are an empty list must make \<open>run_job\<close> fail with the
  missing-steps message. The code gives that message only when the key \<open>steps\<close> is
  absent; over an empty list the loop does nothing and the run is reported successful.
\<close>

theorem run_job_empty_steps_succeeds:
  "run_job env_ok (Some ''a'') (world_of (registry @ job_a no_steps_json)) =
     Returns \<lparr>success = 1, message = ''Run successful'', return_code = 0\<rparr>
       \<lparr>files = registry @ job_a no_steps_json, drawn = 1, steps_run = []\<rparr>"
  by code_simp

subsection \<open>A failed creation leaves the directory\<close>

text \<open>
  C10. There is an input with an empty description for which \<open>create_job\<close> reports
  failure but keeps the job directory it has just made, with no configuration in it;
  creating the same name again then fails because the directory exists.
\<close>

theorem create_job_not_atomic:
  "create_job env_ok (Some ''b'')
       (PDict [(''description'', PStr []), (''steps'', PList [PStr ''make''])]) (world_of registry) =
     Returns \<lparr>success = 0, message = ''Missing description''\<rparr>
       (world_of (registry @ [([''usr'', ''local'', ''viki'', ''jobs'', ''b''], Dir)]))
   \<and> \<not> os_path_exists env_ok (registry @ [([''usr'', ''local'', ''viki'', ''jobs'', ''b''], Dir)])
         ''/usr/local/viki/jobs/b/config.json''
   \<and> create_job env_ok (Some ''b'')
       (PDict [(''description'', PStr ''d''), (''steps'', PList [PStr ''make''])])
       (world_of (registry @ [([''usr'', ''local'', ''viki'', ''jobs'', ''b''], Dir)])) =
     Returns \<lparr>success = 0, message = ''Job directory already exists''\<rparr>
       (world_of (registry @ [([''usr'', ''local'', ''viki'', ''jobs'', ''b''], Dir)]))"
  by code_simp

subsection \<open>Scratch names\<close>

lemma hex_digit_in: "hex_digit d \<in> set ''0123456789abcdef''"
  unfolding hex_digit_def by (rule nth_mem) simp

lemma hex_digits_in: "set (hex_digits k v) \<subseteq> set ''0123456789abcdef''"
proof (induction k arbitrary: v)
  case 0 show ?case by simp
next
  case (Suc k)
  have "hex_digit v \<in> set ''0123456789abcdef''" by (rule hex_digit_in)
  with Suc[of "v div 16"] show ?case by simp
qed

lemma uuid_str_chars: "set (uuid_str u) \<subseteq> set ''-0123456789abcdef''"
proof -
  have "set (uuid_str u) \<subseteq> set (hex_digits 32 u) \<union> {CHR ''-''}"
    unfolding uuid_str_def Let_def by (auto dest: in_set_takeD in_set_dropD)
  also have "\<dots> \<subseteq> set ''0123456789abcdef'' \<union> {CHR ''-''}"
    using hex_digits_in[of 32 u] by blast
  also have "\<dots> = set ''-0123456789abcdef''"
    by simp
  finally show ?thesis .
qed

lemma hex_chars_plain: "set ''-0123456789abcdef'' \<subseteq> Collect plain_char"
  by (simp add: plain_char_def)

lemma uuid_no_slash: "CHR ''/'' \<notin> set (uuid_str u)"
proof -
  have "CHR ''/'' \<notin> set ''-0123456789abcdef''" by simp
  with uuid_str_chars[of u] show ?thesis by blast
qed

lemma uuid_no_nul: "CHR 0x00 \<notin> set (uuid_str u)"
proof -
  have "CHR 0x00 \<notin> set ''-0123456789abcdef''" by simp
  with uuid_str_chars[of u] show ?thesis by blast
qed

lemma uuid_plain: "list_all plain_char (uuid_str u)"
  using uuid_str_chars[of u] hex_chars_plain unfolding list_all_iff by blast

lemma fs_len_simps [simp]:
  "fs_len [] = 0"
  "fs_len (c # s) = (if (127::nat) < of_char c then 2 else 1) + fs_len s"
  "fs_len (a @ b) = fs_len a + fs_len b"
  by (simp_all add: fs_len_def)

declare name_max_def [simp] path_max_def [simp]

lemma hex_digits_length: "length (hex_digits k v) = k"
  by (induction k arbitrary: v) simp_all

lemma uuid_str_length: "length (uuid_str u) = 36"
  by (simp add: uuid_str_def Let_def hex_digits_length)

lemma uuid_fs_len: "fs_len (uuid_str u) = 36"
proof -
  have "filter (\<lambda>c. (127::nat) < of_char c) (uuid_str u) = []"
    using uuid_str_chars[of u] by (auto simp: filter_empty_conv)
  then show ?thesis by (simp add: fs_len_def uuid_str_length)
qed

lemma split_on_nonempty: "split_on c s \<noteq> []"
  by (induction s) (auto split: list.splits)

lemma split_on_no_sep: "c \<notin> set s \<Longrightarrow> split_on c s = [s]"
  by (induction s) (auto split: list.splits)

lemma split_on_append: "split_on c (a @ c # b) = split_on c a @ split_on c b"
  using split_on_nonempty[of c] by (induction a) (auto split: list.splits)

lemma map_of_filter_prefix:
  "map_of (filter (\<lambda>e. \<not> prefix p (fst e)) t) q = (if prefix p q then None else map_of t q)"
  by (induction t) auto

lemma split_uuid: "split_on CHR ''/'' (uuid_str u) = [uuid_str u]"
  by (rule split_on_no_sep[OF uuid_no_slash])

lemma tmp_plain: "plain_word (''/tmp/viki-'' @ uuid_str u)"
  using uuid_plain[of u] by (simp add: plain_word_def plain_char_def)

lemma script_plain: "plain_word (''viki-'' @ uuid_str u)"
  using uuid_plain[of u] by (simp add: plain_word_def plain_char_def)

lemma tmp_resolve:
  "resolve E t (''/tmp/viki-'' @ uuid_str u) =
     (if is_dir t [''tmp''] then Some [''tmp'', ''viki-'' @ uuid_str u] else None)"
  using uuid_no_nul[of u] by (simp add: resolve_def has_nul_def split_uuid is_dir_def uuid_fs_len)

lemma script_resolve:
  "resolve E t (''viki-'' @ uuid_str u) =
     (if is_dir t (cwd E) then Some (cwd E @ [''viki-'' @ uuid_str u]) else None)"
  using uuid_no_nul[of u] by (simp add: resolve_def has_nul_def split_uuid uuid_fs_len)

lemma tmp_rm_rf:
  "rm_rf E (''/tmp/viki-'' @ uuid_str u) t =
     (if is_dir t [''tmp'']
      then filter (\<lambda>e. \<not> prefix [''tmp'', ''viki-'' @ uuid_str u] (fst e)) t else t)"
  by (simp add: rm_rf_def split_uuid strip_slashes_def tmp_resolve[simplified])

lemma script_rm_rf:
  "rm_rf E (''viki-'' @ uuid_str u) t =
     (if is_dir t (cwd E)
      then filter (\<lambda>e. \<not> prefix (cwd E @ [''viki-'' @ uuid_str u]) (fst e)) t else t)"
  by (simp add: rm_rf_def split_uuid strip_slashes_def script_resolve[simplified])

lemma tmp_gone_after_rm:
  "\<not> os_path_exists E (rm_rf E (''/tmp/viki-'' @ uuid_str u) t) (''/tmp/viki-'' @ uuid_str u)"
  by (simp add: os_path_exists_def path_node_def tmp_resolve[simplified] tmp_rm_rf[simplified]
        node_of_def map_of_filter_prefix)

lemma dirty_rm_rf_tmp:
  assumes "dirty_rm_rf E (''/tmp/viki-'' @ uuid_str u) w = Returns b w'"
  shows "\<not> os_path_exists E (files w') (''/tmp/viki-'' @ uuid_str u)"
  using assms tmp_gone_after_rm[of E u "files w"]
  by (auto simp: dirty_rm_rf_def Let_def tmp_plain[simplified] split: option.splits)

lemma run_job_finish_tmp:
  assumes "run_job_finish E (''/tmp/viki-'' @ uuid_str u) s m rc w = Returns r w'"
  shows "\<not> os_path_exists E (files w') (''/tmp/viki-'' @ uuid_str u)"
proof (cases "dirty_rm_rf E (''/tmp/viki-'' @ uuid_str u) w")
  case (Returns b w1)
  with assms have "w' = w1" by (simp add: run_job_finish_def)
  with dirty_rm_rf_tmp[OF Returns] show ?thesis by simp
qed (use assms in \<open>simp_all add: run_job_finish_def\<close>)

subsection \<open>What each call leaves untouched\<close>

lemma then_do_Returns:
  "then_do m f = Returns y w' \<longleftrightarrow> (\<exists>x w1. m = Returns x w1 \<and> f x w1 = Returns y w')"
  by (cases m) auto

lemma then_do_Raises:
  "then_do m f = Raises e w' \<longleftrightarrow>
     m = Raises e w' \<or> (\<exists>x w1. m = Returns x w1 \<and> f x w1 = Raises e w')"
  by (cases m) auto

text \<open>What an outcome leaves behind, if it comes back at all.\<close>

lemma open_append_frame:
  "open_append E s w = Returns x w' \<or> open_append E s w = Raises e w' \<Longrightarrow>
     steps_run w' = steps_run w \<and> drawn w' = drawn w"
  by (auto simp: open_append_def split: if_splits option.splits)

lemma write_file_frame:
  "write_file E s c w = Returns x w' \<or> write_file E s c w = Raises e w' \<Longrightarrow>
     steps_run w' = steps_run w \<and> drawn w' = drawn w"
  by (auto simp: write_file_def split: if_splits option.splits)

lemma os_mkdir_frame:
  "os_mkdir E s w = Returns x w' \<or> os_mkdir E s w = Raises e w' \<Longrightarrow>
     steps_run w' = steps_run w \<and> drawn w' = drawn w"
  by (auto simp: os_mkdir_def split: if_splits option.splits)

lemma read_job_file_frame:
  "read_job_file E s w = Returns x w' \<or> read_job_file E s w = Raises e w' \<Longrightarrow> w' = w"
  by (auto simp: read_job_file_def read_file_def then_do_Returns then_do_Raises
      split: if_splits option.splits node.splits)

lemma dirty_rm_rf_frame:
  "dirty_rm_rf E d w = Returns x w' \<or> dirty_rm_rf E d w = Raises e w' \<Longrightarrow>
     steps_run w' = steps_run w \<and> drawn w' = drawn w"
  by (auto simp: dirty_rm_rf_def Let_def split: if_splits option.splits)

lemma spawn_and_wait_Returns:
  assumes "spawn_and_wait E c s w = Returns (ok, rc) w'"
  shows "ok = (rc = 0) \<and> steps_run w' = steps_run w @ [(c, rc)]
         \<and> (\<exists>t'. poll_until_exit (child E [''/bin/bash'', ''-xc'', c] (files w)) 0 = Some (rc, t'))"
  using assms
  by (auto simp: spawn_and_wait_def Let_def then_do_Returns
      dest!: dirty_rm_rf_frame[OF disjI1] split: option.splits)

lemma rsc_unfold:
  "run_shell_command E command f w =
     then_do (open_append E f w) (\<lambda>u w1.
       then_do (write_file E (''viki-'' @ uuid_str (uuid4 E (drawn w1)))
                  (case command of PStr c \<Rightarrow> c | _ \<Rightarrow> []) (w1\<lparr>drawn := Suc (drawn w1)\<rparr>))
         (\<lambda>u w3. case command of
                    PStr c \<Rightarrow> spawn_and_wait E c (''viki-'' @ uuid_str (uuid4 E (drawn w1))) w3
                  | _ \<Rightarrow> Raises (TypeError ''write() argument must be str'') w3))"
  by (cases command; cases "open_append E f w")
     (simp_all add: run_shell_command_def Let_def new_uuid_def split: outcome.splits)

lemma run_shell_command_Returns:
  assumes "run_shell_command E command output_filename w = Returns (ok, rc) w'"
  shows "ok = (rc = 0) \<and>
         (\<exists>c t t'. command = PStr c
            \<and> poll_until_exit (child E [''/bin/bash'', ''-xc'', c] t) 0 = Some (rc, t')
            \<and> steps_run w' = steps_run w @ [(c, rc)])"
proof -
  let ?name = "\<lambda>w1. ''viki-'' @ uuid_str (uuid4 E (drawn w1))"
  from assms[unfolded rsc_unfold then_do_Returns] obtain u1 w1 u3 w3 where
    oa: "open_append E output_filename w = Returns u1 w1" and
    wf: "write_file E (?name w1) (case command of PStr c \<Rightarrow> c | _ \<Rightarrow> [])
           (w1\<lparr>drawn := Suc (drawn w1)\<rparr>) = Returns u3 w3" and
    sw: "(case command of PStr c \<Rightarrow> spawn_and_wait E c (?name w1) w3
          | _ \<Rightarrow> Raises (TypeError ''write() argument must be str'') w3) = Returns (ok, rc) w'"
    by blast
  from sw obtain c where c: "command = PStr c" and
    sw': "spawn_and_wait E c (?name w1) w3 = Returns (ok, rc) w'"
    by (cases command) simp_all
  from open_append_frame[OF disjI1, OF oa] write_file_frame[OF disjI1, OF wf]
  have "steps_run w3 = steps_run w" by simp
  with spawn_and_wait_Returns[OF sw'] c show ?thesis by auto
qed

lemma dirty_rm_rf_plain_Returns:
  "spawns_ok E \<Longrightarrow> plain_word d \<Longrightarrow>
     dirty_rm_rf E d w = Returns True (w\<lparr>files := rm_rf E d (files w)\<rparr>)"
  by (simp add: dirty_rm_rf_def spawns_ok_def)

lemma spawn_and_wait_Raises:
  assumes "spawns_ok E" and "spawn_and_wait E c (''viki-'' @ uuid_str u) w = Raises e w'"
  shows False
  using assms dirty_rm_rf_plain_Returns[OF assms(1) script_plain[of u]]
  by (auto simp: spawn_and_wait_def Let_def spawns_ok_def split: option.splits)

lemma run_shell_command_Raises:
  assumes ok: "spawns_ok E" and r: "run_shell_command E command f w = Raises e w'"
  shows "steps_run w' = steps_run w"
proof -
  let ?name = "\<lambda>w1. ''viki-'' @ uuid_str (uuid4 E (drawn w1))"
  from r[unfolded rsc_unfold then_do_Raises]
  consider
    (a) "open_append E f w = Raises e w'"
  | (b) u1 w1 where "open_append E f w = Returns u1 w1"
      "write_file E (?name w1) (case command of PStr c \<Rightarrow> c | _ \<Rightarrow> []) (w1\<lparr>drawn := Suc (drawn w1)\<rparr>) = Raises e w'"
  | (c) u1 w1 u3 w3 where "open_append E f w = Returns u1 w1"
      "write_file E (?name w1) (case command of PStr c \<Rightarrow> c | _ \<Rightarrow> []) (w1\<lparr>drawn := Suc (drawn w1)\<rparr>) = Returns u3 w3"
      "(case command of PStr c \<Rightarrow> spawn_and_wait E c (?name w1) w3
        | _ \<Rightarrow> Raises (TypeError ''write() argument must be str'') w3) = Raises e w'"
    by blast
  then show ?thesis
  proof cases
    case a
    from open_append_frame[OF disjI2, OF a] show ?thesis by simp
  next
    case b
    from open_append_frame[OF disjI1, OF b(1)] write_file_frame[OF disjI2, OF b(2)]
    show ?thesis by simp
  next
    case c
    from open_append_frame[OF disjI1, OF c(1)] write_file_frame[OF disjI1, OF c(2)]
    have s: "steps_run w3 = steps_run w" by simp
    show ?thesis
    proof (cases command)
      case (PStr x)
      with c(3) spawn_and_wait_Raises[OF ok] show ?thesis by simp blast
    qed (use c(3) s in simp_all)
  qed
qed

lemma run_job_finish_Returns:
  assumes "run_job_finish E tmp s m rc w = Returns r w'"
  shows "r = \<lparr>success = s, message = m, return_code = rc\<rparr> \<and> steps_run w' = steps_run w"
  using assms
  by (auto simp: run_job_finish_def then_do_Returns dest: dirty_rm_rf_frame[OF disjI1])

subsection \<open>Evaluating the concrete worlds\<close>

lemmas model_defs =
  run_shell_command_def open_append_def resolve_def has_nul_def is_dir_def node_of_def
  new_uuid_def write_file_def spawn_and_wait_def dirty_rm_rf_def plain_word_def plain_char_def
  rm_rf_def strip_slashes_def path_node_def os_path_exists_def os_path_isdir_def os_path_isfile_def
  os_mkdir_def read_file_def read_job_file_def run_job_def run_job_try_def run_job_finish_def
  py_json_loads_def jobs_path_def home_def job_config_filename_def poll_until_exit.simps

lemmas world_defs =
  env_nofork_def env_ok_def world_of_def registry_def job_a_def three_steps_json_def
  no_steps_json_def

lemma uuid_str_0: "uuid_str 0 = ''00000000-0000-0000-0000-000000000000''"
  by code_simp

lemma uuid_str_1: "uuid_str (Suc 0) = ''00000000-0000-0000-0000-000000000001''"
  by code_simp

lemma uuid_str_2: "uuid_str (Suc (Suc 0)) = ''00000000-0000-0000-0000-000000000002''"
  by code_simp


lemma run_three_steps:
  "run_job env_ok (Some ''a'') (world_of (registry @ job_a three_steps_json)) =
     Returns \<lparr>success = 0, message = ''Build step failed'', return_code = 1\<rparr>
       \<lparr>files = registry @ job_a three_steps_json
                 @ [([''usr'', ''local'', ''viki'', ''jobs'', ''a'', ''output.txt''], File [])],
        drawn = 3, steps_run = [(''true'', 0), (''false'', 1)]\<rparr>"
  by (simp add: model_defs world_defs uuid_str_0 uuid_str_1 uuid_str_2)

subsection \<open>The command runner\<close>




subsection \<open>The working directory of a run\<close>

text \<open>
  C8. The directory \<open>/tmp/viki-<uuid>\<close> that \<open>run_job\<close> makes for a run is to be gone
  when the run is over, in whatever state it ended. The removal stands after the \<open>try\<close>
  statement, whose handlers catch four exception classes only: the \<open>ValueError\<close> of a
  configuration that \<open>json.loads\<close> cannot parse, and the \<open>TypeError\<close> of a step that is
  not a string, leave \<open>run_job\<close> before the removal, and the directory stays. In the
  second run the script of the step and \<open>output.txt\<close> stay as well.
\<close>

theorem run_job_raise_leaves_workspace:
  "run_job env_ok (Some ''a'') (world_of (registry @ job_a ''not json'')) =
     Raises (ValueError ''Expecting value'') left_unparsed
   \<and> os_path_isdir env_ok (files left_unparsed) ''/tmp/viki-00000000-0000-0000-0000-000000000000''
   \<and> run_job env_numbers (Some ''a'') (world_of (registry @ job_a number_step_json)) =
     Raises (TypeError ''write() argument must be str'') left_number_step
   \<and> os_path_isdir env_numbers (files left_number_step)
        ''/tmp/viki-00000000-0000-0000-0000-000000000000''"
  by (simp add: model_defs world_defs uuid_str_0 uuid_str_1 env_numbers_def number_step_json_def
      left_unparsed_def left_number_step_def)

text \<open>A run that returns its dictionary has removed the directory.\<close>

lemma run_job_returned_workspace_gone:
  assumes "run_job E nm w = Returns r w'"
  shows "\<not> os_path_exists E (files w') (''/tmp/viki-'' @ uuid_str (uuid4 E (drawn w)))"
proof -
  let ?tmp = "''/tmp/viki-'' @ uuid_str (uuid4 E (drawn w))"
  from assms obtain n where nm: "nm = Some n"
    by (cases nm) (simp_all add: run_job_def)
  from assms nm obtain w2 where
    mk: "os_mkdir E ?tmp (snd (new_uuid E w)) = Returns () w2"
    by (cases "os_mkdir E ?tmp (snd (new_uuid E w))") (simp_all add: run_job_def Let_def new_uuid_def)
  from assms nm mk obtain x w3 where
    tr: "run_job_try E (jobs_path @ ''/'' @ n) w2 = Returns x w3"
    by (cases "run_job_try E (jobs_path @ ''/'' @ n) w2") (simp_all add: run_job_def Let_def new_uuid_def)
  from assms nm mk tr obtain s m where
    "run_job_finish E ?tmp s m (snd x) w3 = Returns r w'"
    by (auto simp: run_job_def Let_def new_uuid_def split: option.splits exn.splits)
  then show ?thesis by (rule run_job_finish_tmp)
qed

subsection \<open>Paths of the registry\<close>

lemma lift_Returns: "lift x w = Returns y w' \<longleftrightarrow> x = Inr y \<and> w' = w"
  by (cases x) auto

lemma init_record_Returns: "init_record n j w = Returns j4 w' \<Longrightarrow> w' = w"
  by (auto simp: init_record_def then_do_Returns lift_Returns)

lemma walk_mono:
  assumes "\<And>p. is_dir t p \<Longrightarrow> is_dir t' p"
  shows "walk t cur cs = Some q \<Longrightarrow> walk t' cur cs = Some q"
  using assms by (induction cs arbitrary: cur) (auto split: if_splits)

lemma walk_append:
  "walk t cur (a @ b) = (case walk t cur a of None \<Rightarrow> None | Some q \<Rightarrow> walk t q b)"
  by (induction a arbitrary: cur) auto

lemma walk_empties: "is_dir t q \<Longrightarrow> walk t q (replicate k []) = Some q"
  by (induction k) auto

lemma strip_slashes_decomp: "\<exists>k. cs = strip_slashes cs @ replicate k []"
proof -
  have "rev cs = takeWhile (\<lambda>c. c = []) (rev cs) @ dropWhile (\<lambda>c. c = []) (rev cs)"
    by simp
  moreover have "takeWhile (\<lambda>c. c = []) (rev cs) = replicate (length (takeWhile (\<lambda>c. c = []) (rev cs))) []"
    by (rule replicate_length_same[symmetric]) (auto dest: set_takeWhileD)
  ultimately have "rev cs = replicate (length (takeWhile (\<lambda>c. c = []) (rev cs))) [] @ dropWhile (\<lambda>c. c = []) (rev cs)"
    by simp
  then have "rev (rev cs) = rev (replicate (length (takeWhile (\<lambda>c. c = []) (rev cs))) [] @ dropWhile (\<lambda>c. c = []) (rev cs))"
    by simp
  then show ?thesis
    unfolding strip_slashes_def by (auto simp del: rev_rev_ident) (metis rev_rev_ident)
qed

lemma job_dir_head: "hd (jobs_path @ ''/'' @ n) = CHR ''/''" "jobs_path @ ''/'' @ n \<noteq> []"
  by (simp_all add: jobs_path_def home_def)

lemma config_split:
  "split_on CHR ''/'' (d @ ''/'' @ job_config_filename) = split_on CHR ''/'' d @ [''config.json'']"
proof -
  have "split_on CHR ''/'' (d @ CHR ''/'' # ''config.json'')
          = split_on CHR ''/'' d @ split_on CHR ''/'' ''config.json''"
    by (rule split_on_append)
  then show ?thesis by (simp add: job_config_filename_def)
qed

text \<open>Once \<open>os.mkdir\<close> has made an absolute directory, \<open>os.path\<close> finds it.\<close>

lemma mkdir_then_resolve:
  assumes mk: "os_mkdir E d w = Returns u w2" and abs: "hd d = CHR ''/''"
  shows "\<exists>p. p \<noteq> [] \<and> resolve E (files w2) d = Some p \<and> map_of (files w2) p = Some Dir"
proof -
  let ?cs = "split_on CHR ''/'' d"
  from mk have nn: "\<not> has_nul d" "d \<noteq> []" "fs_len d < path_max"
    by (auto simp: os_mkdir_def split: if_splits)
  from mk abs nn obtain p where
    p: "walk (files w) [] (strip_slashes ?cs) = Some p" "node_of (files w) p = None"
       "files w2 = AList.update p Dir (files w)"
    by (auto simp: os_mkdir_def split: if_splits option.splits)
  from p(2) have pne: "p \<noteq> []" by (auto simp: node_of_def split: if_splits)
  have m2: "map_of (files w2) = (map_of (files w))(p \<mapsto> Dir)"
    by (simp add: p(3) update_conv')
  have mono: "is_dir (files w) x \<Longrightarrow> is_dir (files w2) x" for x
    by (auto simp: is_dir_def m2)
  have d2: "is_dir (files w2) p" by (simp add: is_dir_def m2)
  obtain k where k: "?cs = strip_slashes ?cs @ replicate k []"
    using strip_slashes_decomp by blast
  have "walk (files w2) [] (strip_slashes ?cs) = Some p"
    by (rule walk_mono[OF mono p(1)])
  then have "walk (files w2) [] (strip_slashes ?cs @ replicate k []) = Some p"
    by (simp add: walk_append walk_empties[OF d2])
  with k have "walk (files w2) [] ?cs = Some p" by simp
  with nn abs have "resolve E (files w2) d = Some p" by (simp add: resolve_def)
  with pne m2 show ?thesis by simp
qed

text \<open>Writing the configuration into a job directory keeps the directory.\<close>

lemma write_config_keeps_dir:
  assumes r: "resolve E (files w2) d = Some p" "map_of (files w2) p = Some Dir" "p \<noteq> []"
    and wr: "write_job_file E (d @ ''/'' @ job_config_filename) j w2 = Returns b w1"
    and abs: "hd d = CHR ''/''"
  shows "os_path_exists E (files w1) d"
proof (cases "w1 = w2")
  case True
  with r show ?thesis by (simp add: os_path_exists_def path_node_def node_of_def)
next
  case False
  let ?f = "d @ ''/'' @ job_config_filename"
  from wr False obtain content where wf: "write_file E ?f content w2 = Returns () w1"
    by (auto simp: write_job_file_def then_do_Returns split: if_splits)
  from r(1) have dn: "d \<noteq> []" "\<not> has_nul d" "fs_len d < path_max" and
    wk: "walk (files w2) [] (split_on CHR ''/'' d) = Some p"
    using abs by (auto simp: resolve_def split: if_splits)
  have dp: "is_dir (files w2) p" using r(2) by (simp add: is_dir_def)
  from wf obtain q where
    q: "resolve E (files w2) ?f = Some q" "\<not> is_dir (files w2) q"
       "files w1 = AList.update q (File content) (files w2)"
    by (auto simp: write_file_def split: if_splits option.splits)
  from q(1) dn abs have "walk (files w2) [] (split_on CHR ''/'' d @ [''config.json'']) = Some q"
    by (auto simp: resolve_def config_split[simplified] split: if_splits)
  with wk dp have qp: "q = p @ [''config.json'']"
    by (simp add: walk_append)
  have m1: "map_of (files w1) = (map_of (files w2))(q \<mapsto> File content)"
    by (simp add: q(3) update_conv')
  have mono: "is_dir (files w2) x \<Longrightarrow> is_dir (files w1) x" for x
    using q(2) by (auto simp: is_dir_def m1)
  have "walk (files w1) [] (split_on CHR ''/'' d) = Some p"
    by (rule walk_mono[OF mono wk])
  with dn abs have "resolve E (files w1) d = Some p" by (simp add: resolve_def)
  moreover have "map_of (files w1) p = Some Dir" using r(2) qp by (simp add: m1)
  ultimately show ?thesis using r(3)
    by (simp add: os_path_exists_def path_node_def node_of_def)
qed

lemma create_job_success:
  assumes "create_job E nm j w = Returns r w1" and "success r = 1"
  shows "\<exists>b. create_job_try E nm j w = Returns b w1"
  using assms
  by (auto simp: create_job_def split: outcome.splits exn.splits)

lemma create_job_try_Returns:
  assumes "create_job_try E (Some n) j w = Returns b w1"
  shows "os_path_exists E (files w1) (jobs_path @ ''/'' @ n)"
proof -
  let ?d = "jobs_path @ ''/'' @ n"
  from assms obtain w2 j4 where
    mk: "os_mkdir E ?d w = Returns () w2" and
    wr: "write_job_file E (?d @ ''/'' @ job_config_filename) j4 w2 = Returns b w1"
    by (auto simp: create_job_try_def Let_def then_do_Returns lift_Returns
        split: if_splits dest!: init_record_Returns)
  from mkdir_then_resolve[OF mk job_dir_head(1)] obtain p where
    "p \<noteq> []" "resolve E (files w2) ?d = Some p" "map_of (files w2) p = Some Dir"
    by blast
  then show ?thesis
    using write_config_keeps_dir[OF _ _ _ wr job_dir_head(1)] by blast
qed

lemma create_job_exists:
  assumes "os_path_exists E (files w) (jobs_path @ ''/'' @ n)"
  shows "create_job E (Some n) j w =
           Returns \<lparr>success = 0, message = ''Job directory already exists''\<rparr> w"
  using assms by (simp add: create_job_def create_job_try_def Let_def)

lemma split_jobs_path: "split_on CHR ''/'' jobs_path = [[], ''usr'', ''local'', ''viki'', ''jobs'']"
  by (simp add: jobs_path_def home_def)

lemma jobs_path_no_nul: "CHR 0x00 \<notin> set jobs_path" "jobs_path \<noteq> []" "hd jobs_path = CHR ''/''"
  by (simp_all add: jobs_path_def home_def)


lemma job_dir_split:
  "valid_name n \<Longrightarrow>
   split_on CHR ''/'' (jobs_path @ ''/'' @ n) = split_on CHR ''/'' jobs_path @ [n]"
  using split_on_append[of "CHR ''/''" jobs_path n]
  by (simp add: valid_name_def split_on_no_sep)

lemma jobs_path_fs_len: "fs_len jobs_path = 20"
  by (simp add: jobs_path_def home_def)











lemma create_b:
  "create_job env_ok (Some ''b'') (PDict build_job) (world_of registry) =
     Returns \<lparr>success = 1, message = ''Job created successfully''\<rparr> (world_of (registry @ job_b))"
  by code_simp





subsection \<open>Creating a job twice\<close>

text \<open>
  C7. After a \<open>create_job\<close> that succeeded, a second \<open>create_job\<close> with the same name,
  whatever its definition, fails with the message that the job directory exists, and
  leaves the world, the first job's record included, as it was.
\<close>

theorem create_job_twice:
  assumes "create_job E (Some n) j w = Returns r w1" and "success r = 1"
  shows "create_job E (Some n) j' w1 =
           Returns \<lparr>success = 0, message = ''Job directory already exists''\<rparr> w1"
proof -
  from create_job_success[OF assms] obtain b where
    "create_job_try E (Some n) j w = Returns b w1" ..
  then have "os_path_exists E (files w1) (jobs_path @ ''/'' @ n)"
    by (rule create_job_try_Returns)
  then show ?thesis by (rule create_job_exists)
qed

theorem create_job_twice_witness:
  "create_job env_ok (Some ''b'') (PDict build_job) (world_of registry) =
     Returns \<lparr>success = 1, message = ''Job created successfully''\<rparr> (world_of (registry @ job_b))
   \<and> success \<lparr>success = 1, message = ''Job created successfully''\<rparr> = 1
   \<and> create_job env_ok (Some ''b'') (PDict [(''description'', PStr ''other''), (''steps'', PList [PStr ''ls''])])
        (world_of (registry @ job_b)) =
     Returns \<lparr>success = 0, message = ''Job directory already exists''\<rparr> (world_of (registry @ job_b))"
proof -
  have s: "success \<lparr>success = 1, message = ''Job created successfully''\<rparr> = 1" by simp
  from create_b s create_job_twice[OF create_b s] show ?thesis by (intro conjI)
qed

subsection \<open>Creating a job and reading it back\<close>



text \<open>
  A name of 256 bytes is not created: \<open>os.mkdir\<close> raises \<open>OSError\<close>, which \<open>create_job\<close>
  does not catch.
\<close>

lemma create_job_long_name_raises:
  "create_job env_ok (Some (replicate 256 CHR ''a'')) (PDict build_job) (world_of registry) =
     Raises (OSError ''File name too long'') (world_of registry)"
  by code_simp

subsection \<open>The record during a run\<close>

lemma poll_exit:
  assumes "poll_until_exit p n = Some r"
  shows "\<exists>k. p k = Some r"
proof (rule poll_until_exit.raw_induct[where P = "\<lambda>p n r. \<exists>k. p k = Some r", OF _ assms])
  fix f :: "proc \<Rightarrow> nat \<Rightarrow> (int \<times> fsys) option" and q :: proc and m :: nat and s
  assume ih: "\<And>q m s. f q m = Some s \<Longrightarrow> \<exists>k. q k = Some s"
    and st: "(case q m of None \<Rightarrow> f q (Suc m) | Some x \<Rightarrow> Some x) = Some s"
  show "\<exists>k. q k = Some s"
  proof (cases "q m")
    case None
    with st have "f q (Suc m) = Some s" by simp
    then show ?thesis by (rule ih)
  next
    case (Some x)
    with st have "q m = Some s" by simp
    then show ?thesis ..
  qed
qed

lemma walk_plain:
  "\<forall>c\<in>set cs. c \<noteq> [] \<and> c \<noteq> ''.'' \<and> c \<noteq> ''..'' \<Longrightarrow> walk t cur cs = Some q \<Longrightarrow> q = cur @ cs"
proof (induction cs arbitrary: cur)
  case Nil
  then show ?case by simp
next
  case (Cons a cs)
  from Cons.prems have "walk t (cur @ [a]) cs = Some q"
    by (auto split: if_splits)
  moreover from Cons.prems have "\<forall>c\<in>set cs. c \<noteq> [] \<and> c \<noteq> ''.'' \<and> c \<noteq> ''..''" by simp
  ultimately have "q = (cur @ [a]) @ cs" by (rule Cons.IH[rotated])
  then show ?case by simp
qed

lemma job_file_resolved:
  assumes "valid_name n" and "f \<notin> {[], ''.'', ''..''}" and "CHR ''/'' \<notin> set f"
    and "resolve E t (jobs_path @ ''/'' @ n @ ''/'' @ f) = Some q"
  shows "q = jobs_root @ [n, f]"
proof -
  have "split_on CHR ''/'' ((jobs_path @ ''/'' @ n) @ CHR ''/'' # f)
          = split_on CHR ''/'' (jobs_path @ ''/'' @ n) @ split_on CHR ''/'' f"
    by (rule split_on_append)
  then have sp: "split_on CHR ''/'' (jobs_path @ ''/'' @ n @ ''/'' @ f)
          = [] # jobs_root @ [n, f]"
    using assms(1,3) by (simp add: job_dir_split[simplified] split_on_no_sep split_jobs_path jobs_root_def)
  from assms(4) have "walk t [] ([] # jobs_root @ [n, f]) = Some q"
    by (simp add: resolve_def sp[simplified] jobs_path_no_nul split: if_splits)
  then have wk: "walk t [] (jobs_root @ [n, f]) = Some q"
    by (simp add: is_dir_def)
  have pl: "\<forall>c\<in>set (jobs_root @ [n, f]). c \<noteq> [] \<and> c \<noteq> ''.'' \<and> c \<noteq> ''..''"
    using assms(1,2) by (auto simp: jobs_root_def valid_name_def)
  from walk_plain[OF pl wk] show ?thesis by simp
qed


lemma prefix_last_in: "prefix (xs @ [x]) ys \<Longrightarrow> x \<in> set ys"
  by (auto simp: prefix_def)

text \<open>What the calls of a run do to one entry of the table.\<close>

lemma os_mkdir_tmp_keeps:
  assumes "os_mkdir E (''/tmp/viki-'' @ uuid_str u) w = Returns x w'
           \<or> os_mkdir E (''/tmp/viki-'' @ uuid_str u) w = Raises e w'"
    and "hd q \<noteq> ''tmp''"
  shows "map_of (files w') q = map_of (files w) q"
proof -
  have "walk (files w) [] (strip_slashes (split_on CHR ''/'' (''/tmp/viki-'' @ uuid_str u))) = Some p
        \<Longrightarrow> p = [''tmp'', ''viki-'' @ uuid_str u]" for p
    by (simp add: split_uuid strip_slashes_def is_dir_def split: if_splits)
  with assms show ?thesis
    by (auto simp: os_mkdir_def update_conv' split: if_splits option.splits)
qed

lemma open_append_keeps:
  assumes "open_append E s w = Returns x w' \<or> open_append E s w = Raises e w'"
    and "\<And>p. resolve E (files w) s = Some p \<Longrightarrow> p \<noteq> q"
  shows "map_of (files w') q = map_of (files w) q"
  using assms
  by (auto simp: open_append_def update_conv' split: if_splits option.splits)

lemma write_file_keeps:
  assumes "write_file E s c w = Returns x w' \<or> write_file E s c w = Raises e w'"
    and "\<And>p. resolve E (files w) s = Some p \<Longrightarrow> p \<noteq> q"
  shows "map_of (files w') q = map_of (files w) q"
  using assms
  by (auto simp: write_file_def update_conv' split: if_splits option.splits)

lemma dirty_rm_rf_script_keeps:
  assumes "dirty_rm_rf E (''viki-'' @ uuid_str u) w = Returns x w'
           \<or> dirty_rm_rf E (''viki-'' @ uuid_str u) w = Raises e w'"
    and "''viki-'' @ uuid_str u \<notin> set q"
  shows "map_of (files w') q = map_of (files w) q"
proof -
  have "\<not> prefix (cwd E @ [''viki-'' @ uuid_str u]) q"
  proof
    assume "prefix (cwd E @ [''viki-'' @ uuid_str u]) q"
    then have "''viki-'' @ uuid_str u \<in> set q" by (rule prefix_last_in)
    with assms(2) show False by (rule notE)
  qed
  with assms(1) show ?thesis
    by (auto simp: dirty_rm_rf_def Let_def script_plain[simplified] script_rm_rf[simplified]
        map_of_filter_prefix split: option.splits if_splits)
qed

lemma dirty_rm_rf_tmp_keeps:
  assumes "dirty_rm_rf E (''/tmp/viki-'' @ uuid_str u) w = Returns x w'
           \<or> dirty_rm_rf E (''/tmp/viki-'' @ uuid_str u) w = Raises e w'"
    and "hd q \<noteq> ''tmp''"
  shows "map_of (files w') q = map_of (files w) q"
proof -
  have "\<not> prefix [''tmp'', ''viki-'' @ uuid_str u] q"
    using assms(2) by (cases q) auto
  with assms(1) show ?thesis
    by (auto simp: dirty_rm_rf_def Let_def tmp_plain[simplified] tmp_rm_rf[simplified]
        map_of_filter_prefix split: option.splits if_splits)
qed

lemma keepsI:
  assumes "\<And>x e w'. m = Returns x w' \<or> m = Raises e w' \<Longrightarrow> map_of (files w') q = map_of (files w) q"
  shows "keeps q w m"
  using assms by (cases m) (auto simp: keeps_def)

lemma keeps_same [simp]: "keeps q w (Returns x w)" "keeps q w (Raises e w)" "keeps q w Diverges"
  by (simp_all add: keeps_def)

lemma keeps_shift:
  "map_of (files w1) q = map_of (files w) q \<Longrightarrow> keeps q w1 m \<Longrightarrow> keeps q w m"
  by (cases m) (auto simp: keeps_def)

lemma keeps_then_do:
  assumes "keeps q w m" and "\<And>x w1. m = Returns x w1 \<Longrightarrow> keeps q w1 (f x w1)"
  shows "keeps q w (then_do m f)"
proof (cases m)
  case (Returns x w1)
  with assms(1) have "map_of (files w1) q = map_of (files w) q" by (simp add: keeps_def)
  from keeps_shift[OF this assms(2)[OF Returns]] Returns show ?thesis by simp
qed (use assms(1) in \<open>simp_all add: keeps_def\<close>)

lemma keeps_read_job_file: "keeps q w (read_job_file E s w)"
  by (rule keepsI) (auto dest: read_job_file_frame[OF disjI1] read_job_file_frame[OF disjI2])

lemma keeps_os_mkdir_tmp:
  "hd q \<noteq> ''tmp'' \<Longrightarrow> keeps q w (os_mkdir E (''/tmp/viki-'' @ uuid_str u) w)"
  by (rule keepsI) (rule os_mkdir_tmp_keeps)

lemma keeps_rm_tmp:
  "hd q \<noteq> ''tmp'' \<Longrightarrow> keeps q w (dirty_rm_rf E (''/tmp/viki-'' @ uuid_str u) w)"
  by (rule keepsI) (rule dirty_rm_rf_tmp_keeps)

lemma keeps_rm_script:
  "''viki-'' @ uuid_str u \<notin> set q \<Longrightarrow> keeps q w (dirty_rm_rf E (''viki-'' @ uuid_str u) w)"
  by (rule keepsI) (rule dirty_rm_rf_script_keeps)

lemma keeps_open_append:
  "(\<And>p. resolve E (files w) s = Some p \<Longrightarrow> p \<noteq> q) \<Longrightarrow> keeps q w (open_append E s w)"
  by (rule keepsI) (rule open_append_keeps)

lemma keeps_write_script:
  assumes "''viki-'' @ uuid_str u \<notin> set q"
  shows "keeps q w (write_file E (''viki-'' @ uuid_str u) c w)"
proof (rule keepsI, rule write_file_keeps)
  fix p assume "resolve E (files w) (''viki-'' @ uuid_str u) = Some p"
  then have "p = cwd E @ [''viki-'' @ uuid_str u]"
    by (simp add: script_resolve[simplified] split: if_splits)
  with assms show "p \<noteq> q" by auto
qed

lemma keeps_spawn_and_wait:
  assumes ck: "children_keep E q" and ns: "''viki-'' @ uuid_str u \<notin> set q"
  shows "keeps q w (spawn_and_wait E c (''viki-'' @ uuid_str u) w)"
proof (cases "spawn_error E [''/bin/bash'', ''-xc'', c] (files w)")
  case (Some e)
  then show ?thesis by (simp add: spawn_and_wait_def)
next
  case None
  show ?thesis
  proof (cases "poll_until_exit (child E [''/bin/bash'', ''-xc'', c] (files w)) 0")
    case None
    with \<open>spawn_error E [''/bin/bash'', ''-xc'', c] (files w) = None\<close> show ?thesis
      by (simp add: spawn_and_wait_def)
  next
    case (Some r)
    from poll_exit[OF Some] ck have k: "map_of (snd r) q = map_of (files w) q"
      unfolding children_keep_def by blast
    let ?w4 = "w\<lparr>files := snd r, steps_run := steps_run w @ [(c, fst r)]\<rparr>"
    have "keeps q ?w4 (then_do (dirty_rm_rf E (''viki-'' @ uuid_str u) ?w4)
             (\<lambda>u w'. Returns (fst r = 0, fst r) w'))"
      by (rule keeps_then_do[OF keeps_rm_script[OF ns]]) simp
    then have "keeps q w (then_do (dirty_rm_rf E (''viki-'' @ uuid_str u) ?w4)
             (\<lambda>u w'. Returns (fst r = 0, fst r) w'))"
      by (rule keeps_shift[rotated]) (simp add: k)
    with Some \<open>spawn_error E [''/bin/bash'', ''-xc'', c] (files w) = None\<close> show ?thesis
      by (simp add: spawn_and_wait_def)
  qed
qed

lemma keeps_run_shell_command:
  assumes ck: "children_keep E q" and ns: "\<forall>k. ''viki-'' @ uuid_str (uuid4 E k) \<notin> set q"
    and fq: "\<forall>t p. resolve E t f = Some p \<longrightarrow> p \<noteq> q"
  shows "keeps q w (run_shell_command E command f w)"
  unfolding rsc_unfold
proof (rule keeps_then_do)
  show "keeps q w (open_append E f w)"
    using fq by (intro keeps_open_append) blast
next
  fix x :: unit and w1 :: world
  from ns have ns': "''viki-'' @ uuid_str (uuid4 E (drawn w1)) \<notin> set q" by blast
  let ?name = "''viki-'' @ uuid_str (uuid4 E (drawn w1))"
  let ?w2 = "w1\<lparr>drawn := Suc (drawn w1)\<rparr>"
  have a: "keeps q ?w2 (then_do (write_file E ?name (case command of PStr c \<Rightarrow> c | _ \<Rightarrow> []) ?w2)
          (\<lambda>u w3. case command of PStr c \<Rightarrow> spawn_and_wait E c ?name w3
                   | _ \<Rightarrow> Raises (TypeError ''write() argument must be str'') w3))"
  proof (rule keeps_then_do[OF keeps_write_script[OF ns']])
    fix y :: unit and w3 :: world
    show "keeps q w3 (case command of PStr c \<Rightarrow> spawn_and_wait E c ?name w3
                   | _ \<Rightarrow> Raises (TypeError ''write() argument must be str'') w3)"
      by (cases command) (simp_all add: keeps_spawn_and_wait[OF ck ns', simplified])
  qed
  show "keeps q w1 (then_do (write_file E ?name (case command of PStr c \<Rightarrow> c | _ \<Rightarrow> []) ?w2)
          (\<lambda>u w3. case command of PStr c \<Rightarrow> spawn_and_wait E c ?name w3
                   | _ \<Rightarrow> Raises (TypeError ''write() argument must be str'') w3))"
    by (rule keeps_shift[OF _ a]) simp
qed

lemma keeps_run_steps:
  assumes ck: "children_keep E q" and ns: "\<forall>k. ''viki-'' @ uuid_str (uuid4 E k) \<notin> set q"
    and fq: "\<forall>t p. resolve E t f = Some p \<longrightarrow> p \<noteq> q"
  shows "keeps q w (run_steps E f items rc w)"
proof (induction items arbitrary: rc w)
  case Nil
  show ?case by simp
next
  case (Cons step rest)
  note k = keeps_run_shell_command[OF ck ns fq, where w = w and command = step]
  show ?case
  proof (cases "run_shell_command E step f w")
    case Diverges
    then show ?thesis by simp
  next
    case (Raises e w1)
    with k show ?thesis by (simp add: keeps_def)
  next
    case (Returns r w1)
    with k have s: "map_of (files w1) q = map_of (files w) q" by (simp add: keeps_def)
    show ?thesis
    proof (cases "fst r")
      case True
      with Returns keeps_shift[OF s Cons.IH[where rc = "snd r" and w = w1]] show ?thesis by simp
    next
      case False
      with Returns s show ?thesis by (simp add: keeps_def)
    qed
  qed
qed

lemma keeps_run_job_try:
  assumes ck: "children_keep E q" and ns: "\<forall>k. ''viki-'' @ uuid_str (uuid4 E k) \<notin> set q"
    and fq: "\<forall>t p. resolve E t (d @ ''/'' @ ''output.txt'') = Some p \<longrightarrow> p \<noteq> q"
  shows "keeps q w (run_job_try E d w)"
proof -
  have rs: "keeps q w (run_steps E (d @ ''/'' @ ''output.txt'') items 0 w)" for items
    by (rule keeps_run_steps[OF ck ns fq])
  show ?thesis
  proof (cases "read_job_file E (d @ ''/'' @ ''config.json'') w")
    case Diverges
    then show ?thesis by (simp add: run_job_try_def Let_def)
  next
    case (Raises e w1)
    from read_job_file_frame[OF disjI2, OF Raises] Raises show ?thesis
      by (simp add: run_job_try_def Let_def)
  next
    case (Returns x w1)
    from read_job_file_frame[OF disjI1, OF Returns] Returns rs show ?thesis
      by (auto simp: run_job_try_def Let_def split: sum.splits)
  qed
qed

lemma keeps_run_job_finish:
  "hd q \<noteq> ''tmp'' \<Longrightarrow> keeps q w (run_job_finish E (''/tmp/viki-'' @ uuid_str u) s m rc w)"
  unfolding run_job_finish_def by (rule keeps_then_do[OF keeps_rm_tmp]) simp_all

lemma keeps_run_job:
  assumes vn: "valid_name n" and ck: "children_keep E (jobs_root @ [n, ''config.json''])"
    and nm: "\<forall>k. n \<noteq> ''viki-'' @ uuid_str (uuid4 E k)"
  shows "keeps (jobs_root @ [n, ''config.json'']) w (run_job E (Some n) w)"
proof -
  let ?q = "jobs_root @ [n, ''config.json'']"
  let ?tmp = "''/tmp/viki-'' @ uuid_str (uuid4 E (drawn w))"
  let ?w1 = "w\<lparr>drawn := Suc (drawn w)\<rparr>"
  let ?d = "jobs_path @ ''/'' @ n"
  have hq: "hd ?q \<noteq> ''tmp''" by (simp add: jobs_root_def)
  have ns: "\<forall>k. ''viki-'' @ uuid_str (uuid4 E k) \<notin> set ?q"
    using nm by (auto simp: jobs_root_def)
  have fq: "\<forall>t p. resolve E t (?d @ ''/'' @ ''output.txt'') = Some p \<longrightarrow> p \<noteq> ?q"
  proof (intro allI impI)
    fix t p assume "resolve E t (?d @ ''/'' @ ''output.txt'') = Some p"
    then have "resolve E t (jobs_path @ ''/'' @ n @ ''/'' @ ''output.txt'') = Some p" by simp
    from job_file_resolved[OF vn _ _ this] have "p = jobs_root @ [n, ''output.txt'']" by simp
    then show "p \<noteq> ?q" by simp
  qed
  have "keeps ?q ?w1
     (then_do (os_mkdir E ?tmp ?w1) (\<lambda>u w2.
        then_do (run_job_try E ?d w2) (\<lambda>r w3.
          case fst r of
            None \<Rightarrow> run_job_finish E ?tmp 1 ''Run successful'' (snd r) w3
          | Some (OSError m) \<Rightarrow> run_job_finish E ?tmp 0 m (snd r) w3
          | Some (SystemError m) \<Rightarrow> run_job_finish E ?tmp 0 m (snd r) w3
          | Some (KeyError k) \<Rightarrow> run_job_finish E ?tmp 0 ''Job has no steps'' (snd r) w3
          | Some e \<Rightarrow> Raises e w3)))"
  proof (rule keeps_then_do[OF keeps_os_mkdir_tmp[OF hq]])
    fix u :: unit and w2 :: world
    show "keeps ?q w2 (then_do (run_job_try E ?d w2) (\<lambda>r w3.
          case fst r of
            None \<Rightarrow> run_job_finish E ?tmp 1 ''Run successful'' (snd r) w3
          | Some (OSError m) \<Rightarrow> run_job_finish E ?tmp 0 m (snd r) w3
          | Some (SystemError m) \<Rightarrow> run_job_finish E ?tmp 0 m (snd r) w3
          | Some (KeyError k) \<Rightarrow> run_job_finish E ?tmp 0 ''Job has no steps'' (snd r) w3
          | Some e \<Rightarrow> Raises e w3))"
    proof (rule keeps_then_do[OF keeps_run_job_try[OF ck ns fq]])
      fix r :: "exn option \<times> int" and w3 :: world
      show "keeps ?q w3 (case fst r of
            None \<Rightarrow> run_job_finish E ?tmp 1 ''Run successful'' (snd r) w3
          | Some (OSError m) \<Rightarrow> run_job_finish E ?tmp 0 m (snd r) w3
          | Some (SystemError m) \<Rightarrow> run_job_finish E ?tmp 0 m (snd r) w3
          | Some (KeyError k) \<Rightarrow> run_job_finish E ?tmp 0 ''Job has no steps'' (snd r) w3
          | Some e \<Rightarrow> Raises e w3)"
        using keeps_run_job_finish[OF hq, of w3 E "uuid4 E (drawn w)"]
        by (auto split: option.splits exn.splits)
    qed
  qed
  then have "keeps ?q ?w1 (run_job E (Some n) w)"
    by (simp only: run_job_def Let_def new_uuid_def fst_conv snd_conv option.case)
  then show ?thesis by (rule keeps_shift[rotated]) simp
qed

lemma a_valid: "valid_name ''a''"
  by (simp add: valid_name_def)

lemma env_ok_children_keep: "children_keep env_ok q"
  by (auto simp: children_keep_def env_ok_def split: if_splits)

text \<open>
  C9. \<open>run_job\<close> never writes the job's \<open>config.json\<close>: for a name that is one path
  component, when no child process touches the record and the job is not named like a
  scratch script of the run, the entry of the record is the same after \<open>run_job\<close>,
  whether it returns or raises, as before; the three counters in it are never updated.
\<close>

theorem run_job_keeps_record:
  assumes "valid_name n" and "children_keep E (jobs_root @ [n, ''config.json''])"
    and "\<forall>k. n \<noteq> ''viki-'' @ uuid_str (uuid4 E k)"
    and "run_job E (Some n) w = Returns r w' \<or> run_job E (Some n) w = Raises e w'"
  shows "map_of (files w') (jobs_root @ [n, ''config.json''])
           = map_of (files w) (jobs_root @ [n, ''config.json''])"
  using keeps_run_job[OF assms(1-3), of w] assms(4) by (auto simp: keeps_def)

theorem run_job_keeps_record_witness:
  "valid_name ''a'' \<and> children_keep env_ok (jobs_root @ [''a'', ''config.json''])
   \<and> (\<forall>k. ''a'' \<noteq> ''viki-'' @ uuid_str (uuid4 env_ok k))
   \<and> run_job env_ok (Some ''a'') (world_of (registry @ job_a three_steps_json)) =
       Returns \<lparr>success = 0, message = ''Build step failed'', return_code = 1\<rparr>
         \<lparr>files = registry @ job_a three_steps_json
                   @ [([''usr'', ''local'', ''viki'', ''jobs'', ''a'', ''output.txt''], File [])],
          drawn = 3, steps_run = [(''true'', 0), (''false'', 1)]\<rparr>
   \<and> map_of (files \<lparr>files = registry @ job_a three_steps_json
                   @ [([''usr'', ''local'', ''viki'', ''jobs'', ''a'', ''output.txt''], File [])],
          drawn = 3, steps_run = [(''true'', 0), (''false'', 1)]\<rparr>)
         (jobs_root @ [''a'', ''config.json''])
       = map_of (files (world_of (registry @ job_a three_steps_json)))
           (jobs_root @ [''a'', ''config.json''])"
proof -
  have nm: "\<forall>k. ''a'' \<noteq> ''viki-'' @ uuid_str (uuid4 env_ok k)" by simp
  note h = run_three_steps
  from a_valid env_ok_children_keep nm h
    run_job_keeps_record[OF a_valid env_ok_children_keep nm disjI1, OF h]
  show ?thesis by (intro conjI)
qed

subsection \<open>Fail-fast execution\<close>

lemma run_steps_log:
  assumes "spawns_ok E"
  shows "run_steps E f items rc w = Returns (x, rc') w' \<Longrightarrow>
     \<exists>t. steps_run w' = steps_run w @ t \<and> (\<forall>e\<in>set (butlast t). snd e = 0)
        \<and> (t \<noteq> [] \<and> snd (last t) \<noteq> 0 \<longrightarrow>
             x = Some (SystemError ''Build step failed'') \<and> rc' = snd (last t))
        \<and> prefix (map (\<lambda>e. PStr (fst e)) t) items"
proof (induction items arbitrary: rc w)
  case Nil
  then show ?case by simp
next
  case (Cons step rest)
  show ?case
  proof (cases "run_shell_command E step f w")
    case Diverges
    with Cons.prems show ?thesis by simp
  next
    case (Raises e w1)
    with Cons.prems have "w' = w1" by simp
    with run_shell_command_Raises[OF assms Raises] show ?thesis by simp
  next
    case (Returns r w1)
    obtain ok rc1 where r: "r = (ok, rc1)" by (cases r)
    from run_shell_command_Returns[OF Returns[unfolded r]]
    obtain c where ok: "ok = (rc1 = 0)" and log: "steps_run w1 = steps_run w @ [(c, rc1)]"
      and c: "step = PStr c"
      by blast
    show ?thesis
    proof (cases ok)
      case False
      with Cons.prems Returns r have "x = Some (SystemError ''Build step failed'')" "rc' = rc1" "w' = w1"
        by simp_all
      with log c show ?thesis by simp
    next
      case True
      with Cons.prems Returns r have "run_steps E f rest rc1 w1 = Returns (x, rc') w'"
        by simp
      from Cons.IH[OF this] obtain t where
        t: "steps_run w' = steps_run w1 @ t" "\<forall>e\<in>set (butlast t). snd e = 0"
           "t \<noteq> [] \<and> snd (last t) \<noteq> 0 \<longrightarrow> x = Some (SystemError ''Build step failed'') \<and> rc' = snd (last t)"
           "prefix (map (\<lambda>e. PStr (fst e)) t) rest"
        by blast
      from True ok have z: "rc1 = 0" by simp
      show ?thesis
      proof (intro exI[of _ "(c, rc1) # t"] conjI)
        show "steps_run w' = steps_run w @ (c, rc1) # t" using t(1) log by simp
        show "\<forall>e\<in>set (butlast ((c, rc1) # t)). snd e = 0" using t(2) z by simp
        show "(c, rc1) # t \<noteq> [] \<and> snd (last ((c, rc1) # t)) \<noteq> 0 \<longrightarrow>
              x = Some (SystemError ''Build step failed'') \<and> rc' = snd (last ((c, rc1) # t))"
          using t(3) z by (cases t) auto
        show "prefix (map (\<lambda>e. PStr (fst e)) ((c, rc1) # t)) (step # rest)"
          using t(4) c by simp
      qed
    qed
  qed
qed

lemma run_job_try_log:
  assumes ok: "spawns_ok E" and r: "run_job_try E d w = Returns (x, rc) w'"
  shows "\<exists>t. steps_run w' = steps_run w @ t \<and> (\<forall>e\<in>set (butlast t). snd e = 0)
        \<and> (t \<noteq> [] \<and> snd (last t) \<noteq> 0 \<longrightarrow>
             x = Some (SystemError ''Build step failed'') \<and> rc = snd (last t))
        \<and> (t = [] \<or> (\<exists>c job_json jobSteps items.
              path_node E (files w) (d @ ''/'' @ ''config.json'') = Some (File c)
              \<and> json_loads E c = Inr job_json \<and> getitem job_json ''steps'' = Inr jobSteps
              \<and> iter_items jobSteps = Inr items
              \<and> prefix (map (\<lambda>e. PStr (fst e)) t) items))"
proof -
  from r have "w' = w \<or> (\<exists>c job_json jobSteps items.
      path_node E (files w) (d @ ''/'' @ ''config.json'') = Some (File c)
      \<and> json_loads E c = Inr job_json \<and> getitem job_json ''steps'' = Inr jobSteps
      \<and> iter_items jobSteps = Inr items
      \<and> run_steps E (d @ ''/'' @ ''output.txt'') items 0 w = Returns (x, rc) w')"
    by (auto simp: run_job_try_def Let_def read_job_file_def read_file_def py_json_loads_def
        then_do_Returns
        split: if_splits outcome.splits sum.splits option.splits node.splits pyval.splits)
  then show ?thesis
  proof
    assume "w' = w"
    then show ?thesis by simp
  next
    assume "\<exists>c job_json jobSteps items.
      path_node E (files w) (d @ ''/'' @ ''config.json'') = Some (File c)
      \<and> json_loads E c = Inr job_json \<and> getitem job_json ''steps'' = Inr jobSteps
      \<and> iter_items jobSteps = Inr items
      \<and> run_steps E (d @ ''/'' @ ''output.txt'') items 0 w = Returns (x, rc) w'"
    then obtain c job_json jobSteps items where
      a: "path_node E (files w) (d @ ''/'' @ ''config.json'') = Some (File c)"
         "json_loads E c = Inr job_json" "getitem job_json ''steps'' = Inr jobSteps"
         "iter_items jobSteps = Inr items" and
      b: "run_steps E (d @ ''/'' @ ''output.txt'') items 0 w = Returns (x, rc) w'"
      by blast
    from run_steps_log[OF ok b] obtain t where
      "steps_run w' = steps_run w @ t" "\<forall>e\<in>set (butlast t). snd e = 0"
      "t \<noteq> [] \<and> snd (last t) \<noteq> 0 \<longrightarrow> x = Some (SystemError ''Build step failed'') \<and> rc = snd (last t)"
      "prefix (map (\<lambda>e. PStr (fst e)) t) items"
      by blast
    with a show ?thesis by blast
  qed
qed

lemma job_file_resolve_full:
  assumes "valid_name n" and "f \<notin> {[], ''.'', ''..''}" and "CHR ''/'' \<notin> set f"
    and "CHR 0x00 \<notin> set f" and "fs_len f \<le> name_max"
  shows "resolve E t (jobs_path @ ''/'' @ n @ ''/'' @ f) =
           (if fs_len n \<le> name_max \<and> is_dir t [''usr''] \<and> is_dir t [''usr'', ''local'']
               \<and> is_dir t [''usr'', ''local'', ''viki''] \<and> is_dir t jobs_root
               \<and> is_dir t (jobs_root @ [n])
            then Some (jobs_root @ [n, f]) else None)"
proof -
  have "split_on CHR ''/'' ((jobs_path @ ''/'' @ n) @ CHR ''/'' # f)
          = split_on CHR ''/'' (jobs_path @ ''/'' @ n) @ split_on CHR ''/'' f"
    by (rule split_on_append)
  then have sp: "split_on CHR ''/'' (jobs_path @ ''/'' @ n @ ''/'' @ f)
          = [[], ''usr'', ''local'', ''viki'', ''jobs'', n, f]"
    using assms(1,3) by (simp add: job_dir_split[simplified] split_on_no_sep split_jobs_path)
  have nn: "\<not> has_nul (jobs_path @ ''/'' @ n @ ''/'' @ f)"
    using assms(1,4) jobs_path_no_nul by (simp add: has_nul_def valid_name_def)
  have "n \<noteq> []" "n \<noteq> ''.''" "n \<noteq> ''..''" "f \<noteq> []" "f \<noteq> ''.''" "f \<noteq> ''..''"
    using assms(1,2) by (simp_all add: valid_name_def)
  then show ?thesis
    using nn jobs_path_no_nul jobs_path_fs_len assms(5)
    by (auto simp: resolve_def sp[simplified] jobs_root_def is_dir_def)
qed

lemma os_mkdir_tmp_Returns:
  assumes "os_mkdir E (''/tmp/viki-'' @ uuid_str u) w = Returns x w2"
  shows "map_of (files w2) = (map_of (files w))([''tmp'', ''viki-'' @ uuid_str u] \<mapsto> Dir)"
proof -
  have "walk (files w) [] (strip_slashes (split_on CHR ''/'' (''/tmp/viki-'' @ uuid_str u))) = Some p
        \<Longrightarrow> p = [''tmp'', ''viki-'' @ uuid_str u]" for p
    by (simp add: split_uuid strip_slashes_def is_dir_def split: if_splits)
  with assms show ?thesis
    by (auto simp: os_mkdir_def update_conv' split: if_splits option.splits)
qed

lemma path_node_job_file_mkdir_tmp:
  assumes "valid_name n" and "f \<notin> {[], ''.'', ''..''}" and "CHR ''/'' \<notin> set f"
    and "CHR 0x00 \<notin> set f" and "fs_len f \<le> name_max"
    and "map_of t2 = (map_of t)([''tmp'', y] \<mapsto> Dir)"
  shows "path_node E t2 (jobs_path @ ''/'' @ n @ ''/'' @ f)
           = path_node E t (jobs_path @ ''/'' @ n @ ''/'' @ f)"
  using assms(6)
  by (simp add: path_node_def job_file_resolve_full[OF assms(1-5), simplified] is_dir_def
      node_of_def jobs_root_def)

text \<open>
  Where every process can be started, the steps that a returning \<open>run_job\<close> has
  executed are such that every one but the last has exited with 0, and when the last one
  has failed the run reports that step's exit code; for a name that is one path component
  they are the first of the steps stored in \<open>config.json\<close>.
\<close>

lemma run_job_returned_log:
  assumes ok: "spawns_ok E" and r: "run_job E nm w = Returns r w'"
  shows "\<exists>t. steps_run w' = steps_run w @ t \<and> (\<forall>e\<in>set (butlast t). snd e = 0)
        \<and> (t \<noteq> [] \<and> snd (last t) \<noteq> 0 \<longrightarrow>
             success r = 0 \<and> message r = ''Build step failed'' \<and> return_code r = snd (last t))
        \<and> (\<forall>n. nm = Some n \<and> valid_name n \<and> t \<noteq> [] \<longrightarrow>
             (\<exists>c job_json jobSteps items.
                 path_node E (files w) (jobs_path @ ''/'' @ n @ ''/'' @ ''config.json'') = Some (File c)
               \<and> json_loads E c = Inr job_json \<and> getitem job_json ''steps'' = Inr jobSteps
               \<and> iter_items jobSteps = Inr items
               \<and> prefix (map (\<lambda>e. PStr (fst e)) t) items))"
proof -
  let ?tmp = "''/tmp/viki-'' @ uuid_str (uuid4 E (drawn w))"
  let ?w1 = "w\<lparr>drawn := Suc (drawn w)\<rparr>"
  from r obtain n where nm: "nm = Some n"
    by (cases nm) (simp_all add: run_job_def)
  let ?cfg = "jobs_path @ ''/'' @ n @ ''/'' @ ''config.json''"
  from r nm obtain w2 where mk: "os_mkdir E ?tmp ?w1 = Returns () w2"
    by (cases "os_mkdir E ?tmp ?w1") (simp_all add: run_job_def Let_def new_uuid_def)
  from r nm mk obtain x rc w3 where
    tr: "run_job_try E (jobs_path @ ''/'' @ n) w2 = Returns (x, rc) w3"
    by (cases "run_job_try E (jobs_path @ ''/'' @ n) w2") (auto simp: run_job_def Let_def new_uuid_def)
  from os_mkdir_frame[OF disjI1, OF mk] have s2: "steps_run w2 = steps_run w" by simp
  from os_mkdir_tmp_Returns[OF mk]
  have m2: "map_of (files w2) = (map_of (files w))([''tmp'', ''viki-'' @ uuid_str (uuid4 E (drawn w))] \<mapsto> Dir)"
    by simp
  have pn: "valid_name n \<Longrightarrow> path_node E (files w2) ?cfg = path_node E (files w) ?cfg"
    by (rule path_node_job_file_mkdir_tmp[OF _ _ _ _ _ m2]) simp_all
  from run_job_try_log[OF ok tr] s2 obtain t where
    t: "steps_run w3 = steps_run w @ t" "\<forall>e\<in>set (butlast t). snd e = 0"
       "t \<noteq> [] \<and> snd (last t) \<noteq> 0 \<longrightarrow> x = Some (SystemError ''Build step failed'') \<and> rc = snd (last t)"
       "t = [] \<or> (\<exists>c job_json jobSteps items.
              path_node E (files w2) ((jobs_path @ ''/'' @ n) @ ''/'' @ ''config.json'') = Some (File c)
              \<and> json_loads E c = Inr job_json \<and> getitem job_json ''steps'' = Inr jobSteps
              \<and> iter_items jobSteps = Inr items
              \<and> prefix (map (\<lambda>e. PStr (fst e)) t) items)"
    by auto
  from r nm mk tr have
    fin: "\<exists>s m. run_job_finish E ?tmp s m rc w3 = Returns r w'
            \<and> (x = Some (SystemError ''Build step failed'') \<longrightarrow> s = 0 \<and> m = ''Build step failed'')"
    by (auto simp: run_job_def Let_def new_uuid_def split: option.splits exn.splits)
  then obtain s m where
    f: "run_job_finish E ?tmp s m rc w3 = Returns r w'" and
    sm: "x = Some (SystemError ''Build step failed'') \<longrightarrow> s = 0 \<and> m = ''Build step failed''"
    by blast
  from run_job_finish_Returns[OF f] have
    rr: "r = \<lparr>success = s, message = m, return_code = rc\<rparr>" and s3: "steps_run w' = steps_run w3"
    by simp_all
  show ?thesis
  proof (intro exI[of _ t] conjI allI impI)
    show "steps_run w' = steps_run w @ t" using s3 t(1) by simp
    show "\<forall>e\<in>set (butlast t). snd e = 0" by (rule t(2))
    show "success r = 0" "message r = ''Build step failed''" "return_code r = snd (last t)"
      if "t \<noteq> [] \<and> snd (last t) \<noteq> 0"
      using that t(3) sm rr by simp_all
    show "\<exists>c job_json jobSteps items.
                 path_node E (files w) (jobs_path @ ''/'' @ n' @ ''/'' @ ''config.json'') = Some (File c)
               \<and> json_loads E c = Inr job_json \<and> getitem job_json ''steps'' = Inr jobSteps
               \<and> iter_items jobSteps = Inr items
               \<and> prefix (map (\<lambda>e. PStr (fst e)) t) items"
      if "nm = Some n' \<and> valid_name n' \<and> t \<noteq> []" for n'
    proof -
      from that nm have e: "n' = n" "valid_name n" "t \<noteq> []" by simp_all
      from t(4) e(3) pn[OF e(2)] show ?thesis unfolding e(1) by simp
    qed
  qed
qed

text \<open>The conditions under which every step can be run to its end.\<close>

lemma poll_finds:
  "p k = Some r \<Longrightarrow> n \<le> k \<Longrightarrow> \<exists>r'. poll_until_exit p n = Some r'"
proof (induction "k - n" arbitrary: n)
  case 0
  then have "n = k" by simp
  with 0 show ?case by (simp add: poll_until_exit.simps)
next
  case (Suc m)
  show ?case
  proof (cases "p n")
    case None
    from Suc have "m = k - Suc n" "Suc n \<le> k" by simp_all
    from Suc.hyps(1)[OF this(1) Suc.prems(1) this(2)] obtain r' where
      "poll_until_exit p (Suc n) = Some r'" ..
    with None show ?thesis by (simp add: poll_until_exit.simps[of p n])
  next
    case (Some x)
    then show ?thesis by (simp add: poll_until_exit.simps[of p n])
  qed
qed

lemma job_dir_resolve_full:
  assumes "valid_name n"
  shows "resolve E t (jobs_path @ ''/'' @ n) =
           (if fs_len n \<le> name_max \<and> is_dir t [''usr''] \<and> is_dir t [''usr'', ''local'']
               \<and> is_dir t [''usr'', ''local'', ''viki''] \<and> is_dir t jobs_root
            then Some (jobs_root @ [n]) else None)"
proof -
  have sp: "split_on CHR ''/'' (jobs_path @ ''/'' @ n)
          = [[], ''usr'', ''local'', ''viki'', ''jobs'', n]"
    using assms by (simp add: job_dir_split[simplified] split_jobs_path)
  have nn: "\<not> has_nul (jobs_path @ ''/'' @ n)"
    using assms jobs_path_no_nul by (simp add: has_nul_def valid_name_def)
  have "n \<noteq> []" "n \<noteq> ''.''" "n \<noteq> ''..''"
    using assms by (simp_all add: valid_name_def)
  then show ?thesis
    using nn jobs_path_no_nul jobs_path_fs_len
    by (auto simp: resolve_def sp[simplified] jobs_root_def is_dir_def)
qed

lemma run_ready_explicit:
  assumes "valid_name n"
  shows "run_ready E n t \<longleftrightarrow>
           fs_len n \<le> name_max \<and> is_dir t [''usr''] \<and> is_dir t [''usr'', ''local'']
           \<and> is_dir t [''usr'', ''local'', ''viki''] \<and> is_dir t jobs_root
           \<and> is_dir t (jobs_root @ [n]) \<and> \<not> is_dir t (jobs_root @ [n, ''output.txt''])
           \<and> is_dir t (cwd E)
           \<and> (\<forall>k. \<not> is_dir t (cwd E @ [''viki-'' @ uuid_str (uuid4 E k)]))"
proof -
  have f: "''output.txt'' \<notin> {[], ''.'', ''..''}" "CHR ''/'' \<notin> set ''output.txt''"
    "CHR 0x00 \<notin> set ''output.txt''" "fs_len ''output.txt'' \<le> name_max"
    by simp_all
  show ?thesis
    unfolding run_ready_def os_path_isdir_def path_node_def
      job_dir_resolve_full[OF assms] job_file_resolve_full[OF assms f]
    by (auto simp: node_of_def is_dir_def jobs_root_def)
qed


lemma is_dir_cong: "map_of t' = map_of t \<Longrightarrow> is_dir t' p = is_dir t p"
  by (simp add: is_dir_def)

lemma snoc_eq_two: "xs @ [a] = [b, c] \<longleftrightarrow> xs = [b] \<and> a = c"
  by (cases xs) auto

lemma chain_prefix:
  "prefix (xs @ [x]) (jobs_root @ [n]) \<Longrightarrow>
     xs @ [x] \<in> {[''usr''], [''usr'', ''local''], [''usr'', ''local'', ''viki''], jobs_root,
                 jobs_root @ [n]}"
  by (auto simp: jobs_root_def prefix_Cons Cons_eq_append_conv)

lemma run_ready_same:
  assumes "valid_name n" and "run_ready E n t" and "map_of t' = map_of t"
  shows "run_ready E n t'"
  using assms(2) unfolding run_ready_explicit[OF assms(1)] is_dir_cong[OF assms(3)] .

lemma run_ready_file:
  assumes "valid_name n" and "run_ready E n t" and "\<not> is_dir t q"
    and "map_of t' = (map_of t)(q \<mapsto> File x)"
  shows "run_ready E n t'"
  using assms(2,3) unfolding run_ready_explicit[OF assms(1)]
  by (auto simp: is_dir_def assms(4))

lemma run_ready_tmp:
  assumes "valid_name n" and "run_ready E n t" and "cwd E \<noteq> [''tmp'']"
    and "map_of t' = (map_of t)([''tmp'', y] \<mapsto> Dir)"
  shows "run_ready E n t'"
  using assms(2,3) unfolding run_ready_explicit[OF assms(1)]
  by (auto simp: is_dir_def assms(4) jobs_root_def snoc_eq_two)

lemma run_ready_rm_script:
  assumes vn: "valid_name n" and rr: "run_ready E n t"
  shows "run_ready E n (filter (\<lambda>e. \<not> prefix (cwd E @ [''viki-'' @ uuid_str (uuid4 E k)]) (fst e)) t)"
proof -
  let ?s = "cwd E @ [''viki-'' @ uuid_str (uuid4 E k)]"
  note ex = rr[unfolded run_ready_explicit[OF vn]]
  from ex have nd: "\<not> is_dir t ?s" by blast
  have np: "\<not> prefix ?s p" if "prefix p (jobs_root @ [n])" for p
  proof
    assume "prefix ?s p"
    with that have "prefix ?s (jobs_root @ [n])" by (meson prefix_order.trans)
    from chain_prefix[OF this] have m: "?s \<in> {[''usr''], [''usr'', ''local''],
        [''usr'', ''local'', ''viki''], jobs_root, jobs_root @ [n]}" .
    from ex have "\<forall>p\<in>{[''usr''], [''usr'', ''local''],
        [''usr'', ''local'', ''viki''], jobs_root, jobs_root @ [n]}. is_dir t p" by simp
    with m have "is_dir t ?s" by blast
    with nd show False ..
  qed
  have c: "\<not> prefix ?s (cwd E)"
    by (auto simp: prefix_def)
  have keep: "is_dir (filter (\<lambda>e. \<not> prefix ?s (fst e)) t) p" if "is_dir t p" "\<not> prefix ?s p" for p
    using that by (simp add: is_dir_def map_of_filter_prefix)
  have gone: "\<not> is_dir (filter (\<lambda>e. \<not> prefix ?s (fst e)) t) p" if "\<not> is_dir t p" for p
    using that by (auto simp: is_dir_def map_of_filter_prefix)
  show ?thesis
    unfolding run_ready_explicit[OF vn]
  proof (intro conjI allI)
    show "fs_len n \<le> name_max" using ex by blast
    show "is_dir (filter (\<lambda>e. \<not> prefix ?s (fst e)) t) [''usr'']"
      using ex by (intro keep np) (auto simp: jobs_root_def)
    show "is_dir (filter (\<lambda>e. \<not> prefix ?s (fst e)) t) [''usr'', ''local'']"
      using ex by (intro keep np) (auto simp: jobs_root_def)
    show "is_dir (filter (\<lambda>e. \<not> prefix ?s (fst e)) t) [''usr'', ''local'', ''viki'']"
      using ex by (intro keep np) (auto simp: jobs_root_def)
    show "is_dir (filter (\<lambda>e. \<not> prefix ?s (fst e)) t) jobs_root"
      using ex by (intro keep np) (auto simp: jobs_root_def)
    show "is_dir (filter (\<lambda>e. \<not> prefix ?s (fst e)) t) (jobs_root @ [n])"
      using ex by (intro keep np) auto
    show "\<not> is_dir (filter (\<lambda>e. \<not> prefix ?s (fst e)) t) (jobs_root @ [n, ''output.txt''])"
      using ex by (intro gone) blast
    show "is_dir (filter (\<lambda>e. \<not> prefix ?s (fst e)) t) (cwd E)"
      using ex c by (intro keep) auto
    show "\<not> is_dir (filter (\<lambda>e. \<not> prefix ?s (fst e)) t) (cwd E @ [''viki-'' @ uuid_str (uuid4 E j)])" for j
      using ex by (intro gone) blast
  qed
qed

lemma run_shell_command_total:
  assumes ok: "spawns_ok E" and cb: "children_behave E n" and vn: "valid_name n"
    and rr: "run_ready E n (files w)"
  shows "\<exists>rc1 w1. run_shell_command E (PStr c) (jobs_path @ ''/'' @ n @ ''/'' @ ''output.txt'') w
             = Returns (rc1 = 0, rc1) w1
           \<and> steps_run w1 = steps_run w @ [(c, rc1)] \<and> run_ready E n (files w1)"
proof -
  let ?out = "jobs_path @ ''/'' @ n @ ''/'' @ ''output.txt''"
  let ?O = "jobs_root @ [n, ''output.txt'']"
  note ex = rr[unfolded run_ready_explicit[OF vn]]
  have f: "''output.txt'' \<notin> {[], ''.'', ''..''}" "CHR ''/'' \<notin> set ''output.txt''"
    "CHR 0x00 \<notin> set ''output.txt''" "fs_len ''output.txt'' \<le> name_max"
    by simp_all
  have res: "resolve E (files w) ?out = Some ?O"
    unfolding job_file_resolve_full[OF vn f] using ex by simp
  have nn: "\<not> has_nul ?out"
    using vn jobs_path_no_nul by (simp add: has_nul_def valid_name_def)
  have "\<exists>w1. open_append E ?out w = Returns () w1 \<and> steps_run w1 = steps_run w
            \<and> run_ready E n (files w1)"
  proof (cases "map_of (files w) ?O")
    case None
    let ?w1 = "w\<lparr>files := AList.update ?O (File []) (files w)\<rparr>"
    have "open_append E ?out w = Returns () ?w1"
      using res nn ex None by (simp add: open_append_def)
    moreover have "run_ready E n (files ?w1)"
      by (rule run_ready_file[OF vn rr, of ?O]) (use ex in \<open>simp_all add: update_conv'\<close>)
    ultimately show ?thesis by (intro exI[of _ ?w1]) simp
  next
    case (Some x)
    have "open_append E ?out w = Returns () w"
      using res nn ex Some by (simp add: open_append_def)
    then show ?thesis using rr by (intro exI[of _ w]) simp
  qed
  then obtain w1 where oa: "open_append E ?out w = Returns () w1"
    and s1: "steps_run w1 = steps_run w" and r1: "run_ready E n (files w1)"
    by blast
  let ?name = "''viki-'' @ uuid_str (uuid4 E (drawn w1))"
  let ?S = "cwd E @ [?name]"
  let ?w2 = "w1\<lparr>drawn := Suc (drawn w1)\<rparr>"
  let ?w3 = "?w2\<lparr>files := AList.update ?S (File c) (files w1)\<rparr>"
  note ex1 = r1[unfolded run_ready_explicit[OF vn]]
  have wf: "write_file E ?name c ?w2 = Returns () ?w3"
    using ex1 uuid_no_nul[of "uuid4 E (drawn w1)"]
    by (simp add: write_file_def script_resolve[simplified] has_nul_def)
  have r3: "run_ready E n (files ?w3)"
    by (rule run_ready_file[OF vn r1, of ?S]) (use ex1 in \<open>simp_all add: update_conv'\<close>)
  let ?argv = "[''/bin/bash'', ''-xc'', c]"
  from cb r3 obtain k r where ch: "child E ?argv (files ?w3) k = Some r"
    unfolding children_behave_def by blast
  from poll_finds[where p = "child E ?argv (files ?w3)" and k = k and n = 0, OF ch] obtain r' where
    po: "poll_until_exit (child E ?argv (files ?w3)) 0 = Some r'"
    by blast
  from poll_exit[OF po] obtain k' where "child E ?argv (files ?w3) k' = Some r'" ..
  with cb r3 have r4: "run_ready E n (snd r')"
    unfolding children_behave_def by blast
  note ex4 = r4[unfolded run_ready_explicit[OF vn]]
  let ?w4 = "?w3\<lparr>files := snd r', steps_run := steps_run ?w3 @ [(c, fst r')]\<rparr>"
  let ?w5 = "?w4\<lparr>files := rm_rf E ?name (snd r')\<rparr>"
  have rm: "dirty_rm_rf E ?name ?w4 = Returns True ?w5"
    using dirty_rm_rf_plain_Returns[OF ok script_plain, of "uuid4 E (drawn w1)" ?w4] by simp
  have sw: "spawn_and_wait E c ?name ?w3 = Returns (fst r' = 0, fst r') ?w5"
    using ok po rm by (simp add: spawn_and_wait_def spawns_ok_def)
  have run: "run_shell_command E (PStr c) ?out w = Returns (fst r' = 0, fst r') ?w5"
    using oa wf sw by (simp add: rsc_unfold)
  have "rm_rf E ?name (snd r') = filter (\<lambda>e. \<not> prefix ?S (fst e)) (snd r')"
    using ex4 by (simp add: script_rm_rf[simplified])
  with run_ready_rm_script[OF vn r4, of "drawn w1"] have r5: "run_ready E n (files ?w5)"
    by simp
  show ?thesis
    using run r5 s1 by (intro exI[of _ "fst r'"] exI[of _ ?w5]) simp
qed

lemma run_steps_total:
  assumes ok: "spawns_ok E" and cb: "children_behave E n" and vn: "valid_name n"
  shows "run_ready E n (files w) \<Longrightarrow>
     \<exists>x rc' w' t. run_steps E (jobs_path @ ''/'' @ n @ ''/'' @ ''output.txt'') (map PStr cmds) rc w
                    = Returns (x, rc') w'
       \<and> steps_run w' = steps_run w @ t
       \<and> map fst t = take (length t) cmds
       \<and> (\<forall>e\<in>set (butlast t). snd e = 0)
       \<and> (if t \<noteq> [] \<and> snd (last t) \<noteq> 0
          then x = Some (SystemError ''Build step failed'') \<and> rc' = snd (last t)
          else x = None \<and> length t = length cmds \<and> rc' = (if t = [] then rc else 0))"
proof (induction cmds arbitrary: rc w)
  case Nil
  show ?case by (intro exI[of _ None] exI[of _ rc] exI[of _ w] exI[of _ "[]"]) simp
next
  case (Cons c rest)
  let ?out = "jobs_path @ ''/'' @ n @ ''/'' @ ''output.txt''"
  from run_shell_command_total[OF ok cb vn Cons.prems, of c] obtain rc1 w1 where
    run: "run_shell_command E (PStr c) ?out w = Returns (rc1 = 0, rc1) w1" and
    log: "steps_run w1 = steps_run w @ [(c, rc1)]" and
    r1: "run_ready E n (files w1)"
    by blast
  show ?case
  proof (cases "rc1 = 0")
    case False
    have "run_steps E ?out (map PStr (c # rest)) rc w
            = Returns (Some (SystemError ''Build step failed''), rc1) w1"
      using run False by simp
    then show ?thesis
      using log False
      by (intro exI[of _ "Some (SystemError ''Build step failed'')"] exI[of _ rc1]
          exI[of _ w1] exI[of _ "[(c, rc1)]"]) simp
  next
    case True
    from Cons.IH[OF r1, of rc1] obtain x rc' w' t where
      st: "run_steps E ?out (map PStr rest) rc1 w1 = Returns (x, rc') w'" and
      t: "steps_run w' = steps_run w1 @ t" "map fst t = take (length t) rest"
         "\<forall>e\<in>set (butlast t). snd e = 0"
         "if t \<noteq> [] \<and> snd (last t) \<noteq> 0
          then x = Some (SystemError ''Build step failed'') \<and> rc' = snd (last t)
          else x = None \<and> length t = length rest \<and> rc' = (if t = [] then rc1 else 0)"
      by blast
    have "run_steps E ?out (map PStr (c # rest)) rc w = Returns (x, rc') w'"
      using run True st by simp
    moreover have "steps_run w' = steps_run w @ (c, rc1) # t"
      using t(1) log by simp
    moreover have "map fst ((c, rc1) # t) = take (length ((c, rc1) # t)) (c # rest)"
      using t(2) by simp
    moreover have "\<forall>e\<in>set (butlast ((c, rc1) # t)). snd e = 0"
      using t(3) True by simp
    moreover have "if (c, rc1) # t \<noteq> [] \<and> snd (last ((c, rc1) # t)) \<noteq> 0
          then x = Some (SystemError ''Build step failed'') \<and> rc' = snd (last ((c, rc1) # t))
          else x = None \<and> length ((c, rc1) # t) = length (c # rest)
               \<and> rc' = (if (c, rc1) # t = [] then rc else 0)"
      using t(4) True by (cases "t = []") simp_all
    ultimately show ?thesis
      by (intro exI[of _ x] exI[of _ rc'] exI[of _ w'] exI[of _ "(c, rc1) # t"] conjI)
  qed
qed

lemma tmp_isdir: "os_path_isdir E t ''/tmp'' \<longleftrightarrow> is_dir t [''tmp'']"
  by (simp add: os_path_isdir_def path_node_def resolve_def has_nul_def is_dir_def node_of_def)

lemma os_mkdir_tmp_total:
  assumes "os_path_isdir E (files w) ''/tmp''"
    and "\<not> os_path_exists E (files w) (''/tmp/viki-'' @ uuid_str u)"
  shows "os_mkdir E (''/tmp/viki-'' @ uuid_str u) w =
           Returns () (w\<lparr>files := AList.update [''tmp'', ''viki-'' @ uuid_str u] Dir (files w)\<rparr>)"
proof -
  have d: "is_dir (files w) [''tmp'']"
    using assms(1) by (simp add: tmp_isdir)
  have n: "node_of (files w) [''tmp'', ''viki-'' @ uuid_str u] = None"
    using assms(2) d by (simp add: os_path_exists_def path_node_def tmp_resolve[simplified])
  have wk: "walk (files w) [] (strip_slashes (split_on CHR ''/'' (''/tmp/viki-'' @ uuid_str u)))
              = Some [''tmp'', ''viki-'' @ uuid_str u]"
    using d by (simp add: split_uuid strip_slashes_def is_dir_def uuid_fs_len)
  show ?thesis
    using uuid_no_nul[of u] n wk[simplified]
    by (simp add: os_mkdir_def has_nul_def uuid_fs_len)
qed

lemma run_job_try_total:
  assumes ok: "spawns_ok E" and cb: "children_behave E n" and vn: "valid_name n"
    and rr: "run_ready E n (files w)"
    and cfg: "path_node E (files w) (jobs_path @ ''/'' @ n @ ''/'' @ ''config.json'') = Some (File c)"
    and js: "json_loads E c = Inr job_json"
    and gs: "getitem job_json ''steps'' = Inr (PList (map PStr cmds))"
  shows "\<exists>x rc w' t. run_job_try E (jobs_path @ ''/'' @ n) w = Returns (x, rc) w'
       \<and> steps_run w' = steps_run w @ t
       \<and> map fst t = take (length t) cmds
       \<and> (\<forall>e\<in>set (butlast t). snd e = 0)
       \<and> (if t \<noteq> [] \<and> snd (last t) \<noteq> 0
          then x = Some (SystemError ''Build step failed'') \<and> rc = snd (last t)
          else x = None \<and> length t = length cmds \<and> rc = 0)"
proof -
  let ?out = "jobs_path @ ''/'' @ n @ ''/'' @ ''output.txt''"
  from rr have d: "os_path_isdir E (files w) (jobs_path @ ''/'' @ n)"
    by (simp add: run_ready_def)
  have nn: "\<not> has_nul (jobs_path @ ''/'' @ n @ ''/'' @ ''config.json'')"
    using vn jobs_path_no_nul by (simp add: has_nul_def valid_name_def)
  have ne: "job_json \<noteq> PBool False" "job_json \<noteq> PNone"
    using gs by auto
  have "run_job_try E (jobs_path @ ''/'' @ n) w = run_steps E ?out (map PStr cmds) 0 w"
    using d cfg[simplified] nn[simplified] js gs ne
    by (simp add: run_job_try_def Let_def os_path_isfile_def read_job_file_def read_file_def
        py_json_loads_def)
  moreover from run_steps_total[OF ok cb vn rr, of cmds 0] obtain x rc' w' t where
    "run_steps E ?out (map PStr cmds) 0 w = Returns (x, rc') w'"
    "steps_run w' = steps_run w @ t" "map fst t = take (length t) cmds"
    "\<forall>e\<in>set (butlast t). snd e = 0"
    "if t \<noteq> [] \<and> snd (last t) \<noteq> 0
     then x = Some (SystemError ''Build step failed'') \<and> rc' = snd (last t)
     else x = None \<and> length t = length cmds \<and> rc' = (if t = [] then 0 else 0)"
    by blast
  ultimately show ?thesis
    by (intro exI[of _ x] exI[of _ rc'] exI[of _ w'] exI[of _ t]) simp
qed

text \<open>
  C4. Take a job \<open>n\<close> whose \<open>config.json\<close> stores the commands \<open>cmds\<close> as its steps, in
  a filesystem where its steps can be run, with \<open>/tmp\<close> there and the name of the working
  directory free, child processes that start and exit. Then \<open>run_job\<close> returns, and the
  steps it has executed, in order and with their exit codes, are the first of \<open>cmds\<close>, in
  their order, each but the last with exit code 0. Either the last one executed has
  failed: then nothing after it was executed, and the run reports failure, the message
  of a failed step and that step's exit code. Or none has failed: then every step of
  \<open>cmds\<close> was executed and the run reports success.
\<close>

theorem run_job_fail_fast:
  assumes ok: "spawns_ok E" and cb: "children_behave E n" and vn: "valid_name n"
    and rr: "run_ready E n (files w)"
    and cw: "cwd E \<noteq> [''tmp'']"
    and td: "os_path_isdir E (files w) ''/tmp''"
    and tf: "\<not> os_path_exists E (files w) (''/tmp/viki-'' @ uuid_str (uuid4 E (drawn w)))"
    and cfg: "path_node E (files w) (jobs_path @ ''/'' @ n @ ''/'' @ ''config.json'') = Some (File c)"
    and js: "json_loads E c = Inr job_json"
    and gs: "getitem job_json ''steps'' = Inr (PList (map PStr cmds))"
  shows "\<exists>r w' t. run_job E (Some n) w = Returns r w'
       \<and> steps_run w' = steps_run w @ t
       \<and> map fst t = take (length t) cmds
       \<and> (\<forall>e\<in>set (butlast t). snd e = 0)
       \<and> (if t \<noteq> [] \<and> snd (last t) \<noteq> 0
          then r = \<lparr>success = 0, message = ''Build step failed'', return_code = snd (last t)\<rparr>
          else length t = length cmds
               \<and> r = \<lparr>success = 1, message = ''Run successful'', return_code = 0\<rparr>)"
proof -
  let ?u = "uuid4 E (drawn w)"
  let ?tmp = "''/tmp/viki-'' @ uuid_str ?u"
  let ?w1 = "w\<lparr>drawn := Suc (drawn w)\<rparr>"
  let ?w2 = "?w1\<lparr>files := AList.update [''tmp'', ''viki-'' @ uuid_str ?u] Dir (files w)\<rparr>"
  have mk: "os_mkdir E ?tmp ?w1 = Returns () ?w2"
    using os_mkdir_tmp_total[of E ?w1 ?u] td tf by simp
  have m2: "map_of (files ?w2) = (map_of (files w))([''tmp'', ''viki-'' @ uuid_str ?u] \<mapsto> Dir)"
    by (simp add: update_conv')
  have r2: "run_ready E n (files ?w2)"
    by (rule run_ready_tmp[OF vn rr cw m2])
  have "path_node E (files ?w2) (jobs_path @ ''/'' @ n @ ''/'' @ ''config.json'')
          = path_node E (files w) (jobs_path @ ''/'' @ n @ ''/'' @ ''config.json'')"
    by (rule path_node_job_file_mkdir_tmp[OF vn _ _ _ _ m2]) simp_all
  with cfg have c2: "path_node E (files ?w2) (jobs_path @ ''/'' @ n @ ''/'' @ ''config.json'')
          = Some (File c)"
    by simp
  from run_job_try_total[OF ok cb vn r2 c2 js gs] obtain x rc w3 t where
    tr: "run_job_try E (jobs_path @ ''/'' @ n) ?w2 = Returns (x, rc) w3" and
    t: "steps_run w3 = steps_run ?w2 @ t" "map fst t = take (length t) cmds"
       "\<forall>e\<in>set (butlast t). snd e = 0"
       "if t \<noteq> [] \<and> snd (last t) \<noteq> 0
        then x = Some (SystemError ''Build step failed'') \<and> rc = snd (last t)
        else x = None \<and> length t = length cmds \<and> rc = 0"
    by blast
  let ?w4 = "w3\<lparr>files := rm_rf E ?tmp (files w3)\<rparr>"
  have fin: "run_job_finish E ?tmp s m rc w3
               = Returns \<lparr>success = s, message = m, return_code = rc\<rparr> ?w4" for s m
    using dirty_rm_rf_plain_Returns[OF ok tmp_plain, of ?u w3]
    by (simp add: run_job_finish_def)
  show ?thesis
  proof (cases "t \<noteq> [] \<and> snd (last t) \<noteq> 0")
    case True
    with t(4) have x: "x = Some (SystemError ''Build step failed'')" "rc = snd (last t)"
      by simp_all
    have "run_job E (Some n) w
            = Returns \<lparr>success = 0, message = ''Build step failed'', return_code = snd (last t)\<rparr> ?w4"
      using mk tr fin[of 0 "''Build step failed''"] x
      by (simp add: run_job_def Let_def new_uuid_def)
    then show ?thesis
      using True t(1-3)
      by (intro exI[of _ "\<lparr>success = 0, message = ''Build step failed'', return_code = snd (last t)\<rparr>"]
          exI[of _ ?w4] exI[of _ t]) simp
  next
    case False
    with t(4) have x: "x = None" "rc = 0" "length t = length cmds"
      by simp_all
    have "run_job E (Some n) w
            = Returns \<lparr>success = 1, message = ''Run successful'', return_code = 0\<rparr> ?w4"
      using mk tr fin[of 1 "''Run successful''"] x
      by (simp add: run_job_def Let_def new_uuid_def)
    then show ?thesis
      using False t(1-3) x(3)
      by (intro exI[of _ "\<lparr>success = 1, message = ''Run successful'', return_code = 0\<rparr>"]
          exI[of _ ?w4] exI[of _ t]) simp
  qed
qed

lemma env_ok_children_behave: "children_behave env_ok n"
proof -
  have c: "child env_ok argv t k =
             (if k < 2 then None
              else Some (if argv = [''/bin/bash'', ''-xc'', ''false''] then 1 else 0, t))" for argv t k
    by (simp add: env_ok_def)
  show ?thesis
    unfolding children_behave_def
  proof (intro allI impI conjI)
    fix argv t
    show "\<exists>k r. child env_ok argv t k = Some r"
      by (intro exI[of _ 2]) (simp add: c)
    show "run_ready env_ok n (snd r)"
      if "run_ready env_ok n t" "child env_ok argv t k = Some r" for k r
      using that by (auto simp: c split: if_splits)
  qed
qed

lemma a_ready: "run_ready env_ok ''a'' (files (world_of (registry @ job_a three_steps_json)))"
  unfolding run_ready_explicit[OF a_valid]
  by (simp add: is_dir_def world_defs jobs_root_def)

lemma run_three_steps_named:
  "run_job env_ok (Some ''a'') (world_of (registry @ job_a three_steps_json)) =
     Returns step_failed ran_three"
  unfolding step_failed_def ran_three_def by (rule run_three_steps)

theorem run_job_fail_fast_witness:
  "spawns_ok env_ok \<and> children_behave env_ok ''a'' \<and> valid_name ''a''
   \<and> run_ready env_ok ''a'' (files (world_of (registry @ job_a three_steps_json)))
   \<and> cwd env_ok \<noteq> [''tmp'']
   \<and> os_path_isdir env_ok (files (world_of (registry @ job_a three_steps_json))) ''/tmp''
   \<and> \<not> os_path_exists env_ok (files (world_of (registry @ job_a three_steps_json)))
         (''/tmp/viki-'' @ uuid_str (uuid4 env_ok (drawn (world_of (registry @ job_a three_steps_json)))))
   \<and> path_node env_ok (files (world_of (registry @ job_a three_steps_json)))
         (jobs_path @ ''/'' @ ''a'' @ ''/'' @ ''config.json'') = Some (File three_steps_json)
   \<and> json_loads env_ok three_steps_json
       = Inr (PDict [(''description'', PStr ''d''),
                     (''steps'', PList [PStr ''true'', PStr ''false'', PStr ''true''])])
   \<and> getitem (PDict [(''description'', PStr ''d''),
                     (''steps'', PList [PStr ''true'', PStr ''false'', PStr ''true''])]) ''steps''
       = Inr (PList (map PStr [''true'', ''false'', ''true'']))
   \<and> run_job env_ok (Some ''a'') (world_of (registry @ job_a three_steps_json))
       = Returns step_failed ran_three
   \<and> (\<exists>r w' t. run_job env_ok (Some ''a'') (world_of (registry @ job_a three_steps_json))
                  = Returns r w'
       \<and> steps_run w' = steps_run (world_of (registry @ job_a three_steps_json)) @ t
       \<and> map fst t = take (length t) [''true'', ''false'', ''true'']
       \<and> (\<forall>e\<in>set (butlast t). snd e = 0)
       \<and> (if t \<noteq> [] \<and> snd (last t) \<noteq> 0
          then r = \<lparr>success = 0, message = ''Build step failed'', return_code = snd (last t)\<rparr>
          else length t = length [''true'', ''false'', ''true'']
               \<and> r = \<lparr>success = 1, message = ''Run successful'', return_code = 0\<rparr>))"
proof -
  let ?w = "world_of (registry @ job_a three_steps_json)"
  let ?d = "PDict [(''description'', PStr ''d''),
                   (''steps'', PList [PStr ''true'', PStr ''false'', PStr ''true''])]"
  have ok: "spawns_ok env_ok"
    by (simp add: spawns_ok_def env_ok_def)
  note cb = env_ok_children_behave[of "''a''"]
  note vn = a_valid
  note rr = a_ready
  have cw: "cwd env_ok \<noteq> [''tmp'']"
    by (simp add: env_ok_def)
  have td: "os_path_isdir env_ok (files ?w) ''/tmp''"
    by (simp add: tmp_isdir is_dir_def world_defs)
  have tf: "\<not> os_path_exists env_ok (files ?w) (''/tmp/viki-'' @ uuid_str (uuid4 env_ok (drawn ?w)))"
    by (simp add: os_path_exists_def path_node_def tmp_resolve[simplified] node_of_def
        world_defs)
  have cfg: "path_node env_ok (files ?w) (jobs_path @ ''/'' @ ''a'' @ ''/'' @ ''config.json'')
               = Some (File three_steps_json)"
    by (simp add: model_defs world_defs)
  have js: "json_loads env_ok three_steps_json = Inr ?d"
    by (simp add: env_ok_def three_steps_json_def no_steps_json_def)
  have gs: "getitem ?d ''steps'' = Inr (PList (map PStr [''true'', ''false'', ''true'']))"
    by simp
  note h = run_three_steps_named
  from ok cb vn rr cw td tf cfg js gs h run_job_fail_fast[OF ok cb vn rr cw td tf cfg js gs]
  show ?thesis by (intro conjI)
qed

end
